theory Spec2Isabelle
  imports Complex_Main "HOL-Library.Log_Nat"
begin

section \<open>Errors\<close>

text \<open>
  The source signals failure by C++ exceptions. \<open>InvalidArgument\<close> is
  \<open>std::invalid_argument\<close> with its message; \<open>IndexError\<close> and \<open>RuntimeError\<close> are the
  tensor library's exceptions (a dimension out of range, a failed check); \<open>LengthError\<close> is
  \<open>std::length_error\<close>. A function that may throw returns \<open>error + 'a\<close>, with \<open>Inl\<close> the
  exception.
\<close>

datatype error = InvalidArgument string | IndexError | RuntimeError | LengthError

definition ebind :: "error + 'a \<Rightarrow> ('a \<Rightarrow> error + 'b) \<Rightarrow> error + 'b" where
  "ebind m f = (case m of Inl e \<Rightarrow> Inl e | Inr v \<Rightarrow> f v)"

text \<open>
  \<open>int64_t\<close> values are integers; where the source does arithmetic on them, the
  two's-complement wrap-around is written out.
\<close>

definition wrap64 :: "int \<Rightarrow> int" where
  "wrap64 x = (x + 2 ^ 63) mod 2 ^ 64 - 2 ^ 63"

section \<open>The tensor library, as far as the source uses it\<close>

text \<open>
  The tensor library is not part of this repository; its operations are modelled here
  from their documented behaviour. A \<open>torch::Tensor\<close> is a view: a backing storage, an
  offset into it, and for every axis its length and its stride (the pairs of \<open>dims\<close>).
  The view operations (\<open>narrow\<close>, \<open>squeeze\<close>, \<open>transpose\<close>) return a tensor over the
  same storage; none of them reads or writes \<open>data\<close>. Lengths, strides and offsets are
  \<open>int64_t\<close> in the library and integers here. The elements are floating-point numbers
  of the tensor's dtype; \<open>data\<close> holds each as the rational number it is equal to.
\<close>

datatype ScalarType = Half | Float | Double

datatype Device = CPU | CUDA nat

record TensorOptions =
  dtype :: ScalarType
  device :: Device

record Tensor =
  data :: "rat list"
  storage_offset :: int
  dims :: "(int \<times> int) list"
  options :: TensorOptions

text \<open>
  Arithmetic in a floating-point dtype rounds every result to the nearest number of
  the dtype, a tie to the one with an even significand. A dtype has \<open>precision\<close>
  significant bits (half 11, single 24, double 53). For \<open>x > 0\<close>, \<open>exponent x\<close> is the
  \<open>e\<close> with \<open>2 ^ e \<le> x < 2 ^ (e + 1)\<close>, found from the bit lengths of numerator and
  denominator; the numbers of the dtype between these two powers are the multiples of
  \<open>2 ^ (e - precision + 1)\<close>. The exponent is not bounded here: overflow to infinity and the
  subnormal numbers are not modelled, nor are infinities and NaN (a division by zero).
\<close>

fun precision :: "ScalarType \<Rightarrow> nat" where
  "precision Half = 11"
| "precision Float = 24"
| "precision Double = 53"

definition pow2 :: "int \<Rightarrow> rat" where
  "pow2 e = (if 0 \<le> e then 2 ^ nat e else 1 / 2 ^ nat (- e))"

definition round_half_even :: "rat \<Rightarrow> int" where
  "round_half_even q =
     (let f = \<lfloor>q\<rfloor>; r = q - of_int f
      in if r < 1 / 2 then f else if 1 / 2 < r then f + 1 else if even f then f else f + 1)"

definition exponent :: "rat \<Rightarrow> int" where
  "exponent x =
     (let e = bitlen (fst (quotient_of x)) - bitlen (snd (quotient_of x))
      in if pow2 e \<le> x then e else e - 1)"

definition round_to :: "ScalarType \<Rightarrow> rat \<Rightarrow> rat" where
  "round_to dt x =
     (if x = 0 then 0
      else
        let ulp = pow2 (exponent \<bar>x\<bar> - int (precision dt) + 1)
        in of_int (round_half_even (x / ulp)) * ulp)"

definition sizes :: "Tensor \<Rightarrow> int list" where
  "sizes t = map fst (dims t)"

definition ndimension :: "Tensor \<Rightarrow> int" where
  "ndimension t = int (length (dims t))"

text \<open>
  \<open>maybe_wrap_dim(dim, dim_post_expr, wrap_scalar)\<close>: an index in
  \<open>[-n, n - 1]\<close> is accepted and a negative one counts from the end; with
  \<open>wrap_scalar\<close> a non-positive \<open>n\<close> is treated as 1.
\<close>

definition maybe_wrap_dim :: "int \<Rightarrow> int \<Rightarrow> bool \<Rightarrow> error + int" where
  "maybe_wrap_dim d dim_post_expr wrap_scalar =
     (if dim_post_expr \<le> 0 \<and> \<not> wrap_scalar then Inl IndexError
      else
        let n = (if dim_post_expr \<le> 0 then 1 else dim_post_expr) in
        if d < - n \<or> n - 1 < d then Inl IndexError
        else Inr (if d < 0 then d + n else d))"

text \<open>\<open>Tensor::size(d)\<close>: the length of axis \<open>d\<close>; it throws on a tensor without axes.\<close>

definition tensor_size :: "Tensor \<Rightarrow> int \<Rightarrow> error + int" where
  "tensor_size t d =
     ebind (maybe_wrap_dim d (ndimension t) False) (\<lambda>k. Inr (fst (dims t ! nat k)))"

text \<open>
  \<open>Tensor::narrow(dim, start, length)\<close>: the view of the positions
  \<open>start, ..., start + length - 1\<close> of axis \<open>dim\<close>. It checks that the tensor has an axis,
  that \<open>dim\<close> and \<open>start\<close> are in range and that \<open>0 \<le> length\<close> and
  \<open>start + length\<close> does not pass the end of the axis.
\<close>

definition narrow :: "Tensor \<Rightarrow> int \<Rightarrow> int \<Rightarrow> int \<Rightarrow> error + Tensor" where
  "narrow t axis start len =
     (if ndimension t \<le> 0 then Inl RuntimeError
      else
        ebind (tensor_size t axis) (\<lambda>cur_size.
        ebind (if start \<noteq> cur_size then maybe_wrap_dim start cur_size True else Inr start)
          (\<lambda>start'.
        if \<not> (0 \<le> len \<and> start' \<le> cur_size - len) then Inl RuntimeError
        else
          ebind (maybe_wrap_dim axis (ndimension t) True) (\<lambda>k.
            Inr (t\<lparr>storage_offset := storage_offset t + start' * snd (dims t ! nat k),
                   dims := (dims t)[nat k := (len, snd (dims t ! nat k))]\<rparr>)))))"

text \<open>
  \<open>Tensor::squeeze(dim)\<close>: axis \<open>dim\<close> is removed when its length is 1; otherwise the
  tensor is returned as it is.
\<close>

definition squeeze :: "Tensor \<Rightarrow> int \<Rightarrow> error + Tensor" where
  "squeeze t axis =
     ebind (maybe_wrap_dim axis (ndimension t) True) (\<lambda>k.
       if ndimension t = 0 \<or> fst (dims t ! nat k) \<noteq> 1 then Inr t
       else Inr (t\<lparr>dims := take (nat k) (dims t) @ drop (Suc (nat k)) (dims t)\<rparr>))"

text \<open>\<open>Tensor::transpose(dim0, dim1)\<close>: the two axes change places.\<close>

definition tensor_transpose :: "Tensor \<Rightarrow> int \<Rightarrow> int \<Rightarrow> error + Tensor" where
  "tensor_transpose t dim0 dim1 =
     ebind (maybe_wrap_dim dim0 (ndimension t) True) (\<lambda>k0.
     ebind (maybe_wrap_dim dim1 (ndimension t) True) (\<lambda>k1.
       if k0 = k1 then Inr t
       else Inr (t\<lparr>dims := (dims t)[nat k0 := dims t ! nat k1, nat k1 := dims t ! nat k0]\<rparr>)))"

text \<open>
  Reading a tensor at a multi-index: the element of the storage at the offset plus the
  index weighted by the strides. \<open>select\<close> is the view at one position of an axis, with
  that axis removed; \<open>axis_span\<close> lists these views along an axis, first to last.
\<close>

definition item :: "Tensor \<Rightarrow> int list \<Rightarrow> rat" where
  "item t idx =
     data t ! nat (storage_offset t + sum_list (map2 (\<lambda>i ax. i * snd ax) idx (dims t)))"

definition select :: "Tensor \<Rightarrow> nat \<Rightarrow> int \<Rightarrow> Tensor" where
  "select t k j =
     t\<lparr>storage_offset := storage_offset t + j * snd (dims t ! k),
       dims := take k (dims t) @ drop (Suc k) (dims t)\<rparr>"

definition axis_span :: "Tensor \<Rightarrow> nat \<Rightarrow> Tensor list" where
  "axis_span t k = map (\<lambda>j. select t k (int j)) [0 ..< nat (fst (dims t ! k))]"

text \<open>
  \<open>torch::ones(shape, options)\<close>: a new contiguous tensor of ones (1 is a number of
  every dtype). \<open>torch::linspace(start, end, steps, options)\<close>: a new tensor of \<open>steps\<close>
  values, evenly spaced from \<open>start\<close> to \<open>end\<close>, computed in the dtype of the options:
  the two ends and \<open>steps - 1\<close> are converted to the dtype, the step is their rounded
  quotient, and element \<open>i\<close> is \<open>start + step * i\<close> with each operation rounded. (Some
  versions of the library compute the second half of the elements from \<open>end\<close>
  downwards; where all the values concerned are numbers of the dtype, as in the
  statements below, every operation is exact and the two forms agree.) Both functions
  throw on a negative length.
\<close>

fun contiguous_strides :: "int list \<Rightarrow> int list" where
  "contiguous_strides [] = []"
| "contiguous_strides (s # ss) = prod_list (map (max 1) ss) # contiguous_strides ss"

definition torch_ones :: "int list \<Rightarrow> TensorOptions \<Rightarrow> error + Tensor" where
  "torch_ones shape opt =
     (if list_ex (\<lambda>s. s < 0) shape then Inl RuntimeError
      else Inr \<lparr>data = replicate (nat (prod_list shape)) 1, storage_offset = 0,
                dims = zip shape (contiguous_strides shape), options = opt\<rparr>)"

definition torch_linspace :: "rat \<Rightarrow> rat \<Rightarrow> int \<Rightarrow> TensorOptions \<Rightarrow> error + Tensor" where
  "torch_linspace start stop steps opt =
     (if steps < 0 then Inl RuntimeError
      else
        let fl = round_to (dtype opt);
            scalar_start = fl start;
            scalar_end = fl stop;
            step = fl (fl (scalar_end - scalar_start) / fl (of_int (steps - 1)))
        in Inr \<lparr>data =
                  (if steps = 1 then [scalar_start]
                   else map (\<lambda>i. fl (scalar_start + fl (step * fl (of_nat i))))
                          [0 ..< nat steps]),
                storage_offset = 0, dims = [(steps, 1)], options = opt\<rparr>)"

text \<open>
  \<open>self /= other\<close>, the division in place, for two tensors of one axis and the same length
  (the only shapes the source divides): every element of \<open>self\<close> is replaced by its
  quotient by the element of \<open>other\<close> at the same index, rounded to the dtype of
  \<open>self\<close>. (The library divides half-precision numbers in single precision and rounds
  the result again; for a quotient that is the rounding to half precision, since
  \<open>24 \<ge> 2 * 11 + 2\<close>.) Other shapes are rejected here; the library would broadcast some
  of them.
\<close>

definition div_inplace :: "Tensor \<Rightarrow> Tensor \<Rightarrow> error + Tensor" where
  "div_inplace self other =
     (if length (dims self) = 1 \<and> sizes self = sizes other then
        Inr (self\<lparr>data :=
          fold (\<lambda>i d. d[nat (storage_offset self + int i * snd (dims self ! 0)) :=
                         round_to (dtype (options self))
                           (d ! nat (storage_offset self + int i * snd (dims self ! 0)) /
                            data other !
                              nat (storage_offset other + int i * snd (dims other ! 0)))])
            [0 ..< nat (fst (dims self ! 0))] (data self)\<rparr>)
      else Inl RuntimeError)"

section \<open>SigSpec\<close>

text \<open>
  Modelled from the spec: the function \<open>signature_channels\<close>, which the constructor calls
  and whose code (\<open>utilities.hpp\<close> and its implementation) is not among the sources. The
  spec gives its result as the sum of \<open>input_channels ^ i\<close> for \<open>i\<close> from 1 to \<open>depth\<close>.
\<close>

definition signature_channels :: "int \<Rightarrow> int \<Rightarrow> int" where
  "signature_channels input_channels' depth' =
     sum_list (map (\<lambda>i. input_channels' ^ nat i) [1 .. depth'])"

text \<open>
  Modelled from the spec: the members of \<open>SigSpec\<close>, declared in \<open>misc.hpp\<close>, which is not
  among the sources; they are the members the constructor initialises, in its order.
  \<open>size_type\<close> is \<open>int64_t\<close>.
\<close>

record SigSpec =
  opts :: TensorOptions
  input_stream_size :: int
  input_channels :: int
  batch_size :: int
  output_stream_size :: int
  output_channels :: int
  n_output_dims :: int
  depth :: int
  reciprocals :: Tensor
  stream :: bool
  basepoint :: bool

text \<open>
  The constructor \<open>SigSpec::SigSpec(path, depth, stream, basepoint)\<close>. The path is in
  the internal layout (stream, channel, batch). Each \<open>path.size(i)\<close> is read once here
  (the source reads axes 0 and 1 twice, with the same result).
\<close>

definition SigSpec_ctor :: "Tensor \<Rightarrow> int \<Rightarrow> bool \<Rightarrow> bool \<Rightarrow> error + SigSpec" where
  "SigSpec_ctor path depth' stream' basepoint' =
     (let opts' = \<lparr>dtype = dtype (options path), device = device (options path)\<rparr> in
      ebind (tensor_size path 0) (\<lambda>size0.
      ebind (tensor_size path 1) (\<lambda>size1.
      ebind (tensor_size path 2) (\<lambda>size2.
      ebind (torch_ones [wrap64 (depth' - 1)] opts') (\<lambda>ones.
      ebind (if 1 < depth' then
               ebind (torch_linspace 2 (of_int depth') (wrap64 (depth' - 1)) opts')
                 (\<lambda>lin. div_inplace ones lin)
             else Inr ones) (\<lambda>reciprocals'.
        Inr \<lparr>opts = opts',
             input_stream_size = size0,
             input_channels = size1,
             batch_size = size2,
             output_stream_size = wrap64 (size0 - (if basepoint' then 0 else 1)),
             output_channels = signature_channels size1 depth',
             n_output_dims = (if stream' then 3 else 2),
             depth = depth',
             reciprocals = reciprocals',
             stream = stream',
             basepoint = basepoint'\<rparr>))))))"

section \<open>Slicing by term and at a stream index\<close>

text \<open>
  \<open>slice_by_term(in, out, dim, sigspec)\<close>. The vector \<open>out\<close> is cleared, and
  \<open>reserve\<close> throws \<open>std::length_error\<close> on a negative \<open>depth\<close> (converted to an unsigned
  size it exceeds every \<open>max_size\<close>). The loop runs while \<open>i < depth\<close>; the two running
  values are \<open>int64_t\<close>. An exception of \<open>narrow\<close> leaves the loop.
\<close>

function slice_by_term_loop ::
  "Tensor \<Rightarrow> int \<Rightarrow> SigSpec \<Rightarrow> int \<Rightarrow> int \<Rightarrow> int \<Rightarrow> Tensor list \<Rightarrow> error + Tensor list" where
  "slice_by_term_loop in' axis sigspec' i current_memory_pos current_memory_length out' =
     (if i < depth sigspec' then
        ebind (narrow in' axis current_memory_pos current_memory_length) (\<lambda>v.
          slice_by_term_loop in' axis sigspec' (i + 1)
            (wrap64 (current_memory_pos + current_memory_length))
            (wrap64 (current_memory_length * input_channels sigspec'))
            (out' @ [v]))
      else Inr out')"
  by pat_completeness auto
termination
  by (relation "measure (\<lambda>(in', axis, sigspec', i, p, l, out'). nat (depth sigspec' - i))") auto

declare slice_by_term_loop.simps [simp del]

definition slice_by_term :: "Tensor \<Rightarrow> Tensor list \<Rightarrow> int \<Rightarrow> SigSpec \<Rightarrow> error + Tensor list" where
  "slice_by_term in' out' axis sigspec' =
     (if depth sigspec' < 0 then Inl LengthError
      else slice_by_term_loop in' axis sigspec' 0 0 (input_channels sigspec') [])"

text \<open>
  \<open>slice_at_stream(in, out, stream_index)\<close>: every element of \<open>in\<close>, in order, narrowed
  to the one position \<open>stream_index\<close> of axis 0 and squeezed.
\<close>

fun slice_at_stream_loop :: "Tensor list \<Rightarrow> int \<Rightarrow> Tensor list \<Rightarrow> error + Tensor list" where
  "slice_at_stream_loop [] stream_index out' = Inr out'"
| "slice_at_stream_loop (elem # rest) stream_index out' =
     ebind (narrow elem 0 stream_index 1) (\<lambda>n.
     ebind (squeeze n 0) (\<lambda>v.
       slice_at_stream_loop rest stream_index (out' @ [v])))"

definition slice_at_stream :: "Tensor list \<Rightarrow> Tensor list \<Rightarrow> int \<Rightarrow> error + Tensor list" where
  "slice_at_stream in' out' stream_index = slice_at_stream_loop in' stream_index []"

section \<open>Layout\<close>

definition transpose_layout :: "Tensor \<Rightarrow> SigSpec \<Rightarrow> error + Tensor" where
  "transpose_layout tensor sigspec' =
     (if stream sigspec' then
        ebind (tensor_transpose tensor 1 2) (\<lambda>t. tensor_transpose t 0 1)
      else tensor_transpose tensor 0 1)"

definition transpose_reverse :: "Tensor \<Rightarrow> SigSpec \<Rightarrow> error + Tensor" where
  "transpose_reverse tensor sigspec' =
     (if stream sigspec' then
        ebind (tensor_transpose tensor 0 1) (\<lambda>t. tensor_transpose t 1 2)
      else tensor_transpose tensor 0 1)"

section \<open>The context handed from the forward to the backward pass\<close>

text \<open>
  Modelled from the spec: the enumeration \<open>LogSignatureMode\<close> and the members of
  \<open>BackwardsInfo\<close>, declared in \<open>misc.hpp\<close>, which is not among the sources. The members
  are those the constructor and \<open>set_logsignature_data\<close> assign. The constructor leaves the
  two vectors of the log-signature part empty and does not initialise \<open>mode\<close> and
  \<open>logsignature_channels\<close>: \<open>None\<close> stands for a member without a value yet.
\<close>

datatype LogSignatureMode = Expand | Brackets | Words

record BackwardsInfo =
  sigspec :: SigSpec
  out_vector :: "Tensor list"
  out :: Tensor
  path_increments :: Tensor
  signature_vector :: "Tensor list"
  transforms :: "(int \<times> int \<times> int) list"
  mode :: "LogSignatureMode option"
  logsignature_channels :: "int option"

definition BackwardsInfo_ctor ::
  "SigSpec \<Rightarrow> Tensor list \<Rightarrow> Tensor \<Rightarrow> Tensor \<Rightarrow> BackwardsInfo" where
  "BackwardsInfo_ctor sigspec' out_vector' out' path_increments' =
     \<lparr>sigspec = sigspec', out_vector = out_vector', out = out',
      path_increments = path_increments', signature_vector = [], transforms = [],
      mode = None, logsignature_channels = None\<rparr>"

definition set_logsignature_data ::
  "BackwardsInfo \<Rightarrow> Tensor list \<Rightarrow> (int \<times> int \<times> int) list \<Rightarrow> LogSignatureMode \<Rightarrow> int
     \<Rightarrow> BackwardsInfo" where
  "set_logsignature_data this signature_vector' transforms' mode' logsignature_channels' =
     this\<lparr>signature_vector := signature_vector',
          transforms := transforms',
          mode := Some mode',
          logsignature_channels := Some logsignature_channels'\<rparr>"

text \<open>
  The interpreter's capsules, as far as the source uses them, modelled from the
  documentation of the interpreter's C interface. A pointer is an address, 0 the null
  pointer; the free store maps the addresses of the live \<open>BackwardsInfo\<close> objects to
  their values. A Python object is a capsule (pointer, name, destructor) or
  something else; a \<open>py::object\<close> is a possibly null reference to one. The error indicator
  of the interpreter holds the pending Python exception.
\<close>

datatype Destructor = BackwardsInfoCapsuleDestructor

datatype PyObject =
  PyCapsule (capsule_pointer: nat) (capsule_name: "string option")
    (capsule_destructor: "Destructor option")
| PyOther

datatype PyErr = ValueError string

record State =
  heap :: "nat \<Rightarrow> BackwardsInfo option"
  last_address :: nat
  error_indicator :: "PyErr option"

definition backwards_info_capsule_name :: string where
  "backwards_info_capsule_name = ''signatory.BackwardsInfoCapsule''"

text \<open>\<open>new\<close> returns an address that was never used, and never the null pointer.\<close>

definition operator_new :: "BackwardsInfo \<Rightarrow> State \<Rightarrow> nat \<times> State" where
  "operator_new obj st =
     (let p = Suc (last_address st)
      in (p, st\<lparr>heap := (heap st)(p := Some obj), last_address := p\<rparr>))"

definition operator_delete :: "nat \<Rightarrow> State \<Rightarrow> State" where
  "operator_delete p st = (if p = 0 then st else st\<lparr>heap := (heap st)(p := None)\<rparr>)"

text \<open>
  \<open>PyCapsule_New(pointer, name, destructor)\<close> refuses a null pointer.
  \<open>PyCapsule_GetPointer(capsule, name)\<close> returns the capsule's pointer when the object is
  a capsule with a pointer and its name equals \<open>name\<close> (both null, or equal as
  strings); otherwise it sets \<open>ValueError\<close> and returns the null pointer.
\<close>

definition PyCapsule_New ::
  "nat \<Rightarrow> string option \<Rightarrow> Destructor option \<Rightarrow> State \<Rightarrow> PyObject option \<times> State" where
  "PyCapsule_New pointer name' destructor st =
     (if pointer = 0 then
        (None, st\<lparr>error_indicator :=
           Some (ValueError ''PyCapsule_New called with null pointer'')\<rparr>)
      else (Some (PyCapsule pointer name' destructor), st))"

definition PyCapsule_GetPointer ::
  "PyObject option \<Rightarrow> string option \<Rightarrow> State \<Rightarrow> nat \<times> State" where
  "PyCapsule_GetPointer capsule name' st =
     (case capsule of
        Some (PyCapsule pointer cname destructor) \<Rightarrow>
          if pointer = 0 then
            (0, st\<lparr>error_indicator :=
               Some (ValueError ''PyCapsule_GetPointer called with invalid PyCapsule object'')\<rparr>)
          else if cname = name' then (pointer, st)
          else
            (0, st\<lparr>error_indicator :=
               Some (ValueError ''PyCapsule_GetPointer called with incorrect name'')\<rparr>)
      | _ \<Rightarrow>
          (0, st\<lparr>error_indicator :=
             Some (ValueError ''PyCapsule_GetPointer called with invalid PyCapsule object'')\<rparr>))"

definition BackwardsInfoCapsuleDestructor_call :: "PyObject option \<Rightarrow> State \<Rightarrow> State" where
  "BackwardsInfoCapsuleDestructor_call capsule st =
     (let (p, st') = PyCapsule_GetPointer capsule (Some backwards_info_capsule_name) st
      in operator_delete p st')"

text \<open>
  \<open>make_backwards_info\<close>: the constructor's parameters are rvalue references, but it
  initialises its members from them as lvalues, so \<open>sigspec\<close> and \<open>out_vector\<close> are copied.
\<close>

definition make_backwards_info ::
  "Tensor list \<Rightarrow> Tensor \<Rightarrow> Tensor \<Rightarrow> SigSpec \<Rightarrow> State \<Rightarrow> PyObject option \<times> State" where
  "make_backwards_info out_vector' out' path_increments' sigspec' st =
     (let (p, st') =
        operator_new (BackwardsInfo_ctor sigspec' out_vector' out' path_increments') st
      in PyCapsule_New p (Some backwards_info_capsule_name)
           (Some BackwardsInfoCapsuleDestructor) st')"

definition get_backwards_info :: "PyObject option \<Rightarrow> State \<Rightarrow> nat \<times> State" where
  "get_backwards_info backwards_info_capsule st =
     PyCapsule_GetPointer backwards_info_capsule (Some backwards_info_capsule_name) st"

section \<open>Checking the arguments\<close>

text \<open>The messages of the exceptions, as the source writes them.\<close>

definition msg_path_ndimension :: string where
  "msg_path_ndimension = ''Argument 'path' must be a 3-dimensional tensor, with dimensions corresponding to (batch, stream, channel) respectively.''"

definition msg_path_zero :: string where
  "msg_path_zero = ''Argument 'path' cannot have dimensions of size zero.''"

definition msg_path_stream :: string where
  "msg_path_stream = ''Argument 'path' must have stream dimension of size at least 2. (Need at least this many points to define a path.)''"

definition msg_depth :: string where
  "msg_depth = ''Argument 'depth' must be an integer greater than or equal to one.''"

definition msg_basepoint_ndimension :: string where
  "msg_basepoint_ndimension = ''Argument 'basepoint' must be a 2-dimensional tensor, corresponding to (batch, channel) respectively.''"

definition msg_basepoint_size :: string where
  "msg_basepoint_size = ''Arguments 'basepoint' and 'path' must have dimensions of the same size.''"

definition msg_grad_ndimension3 :: string where
  "msg_grad_ndimension3 = ''Gradient must be a 3-dimensional tensor, with dimensions corresponding to (batch, stream, channel) respectively.''"

definition msg_grad_ndimension2 :: string where
  "msg_grad_ndimension2 = ''Gradient must be a 2-dimensional tensor, with dimensionscorresponding to (batch, channel) respectively.''"

definition msg_grad_size :: string where
  "msg_grad_size = ''Gradient has the wrong size.''"

text \<open>
  The comparisons of the source, each reading a length with \<open>size\<close> (which may throw), and
  the short-circuit \<open>||\<close>: the right operand is evaluated only when the left one is false.
\<close>

definition size_is :: "Tensor \<Rightarrow> int \<Rightarrow> int \<Rightarrow> error + bool" where
  "size_is t d v = ebind (tensor_size t d) (\<lambda>s. Inr (s = v))"

definition size_differs :: "Tensor \<Rightarrow> int \<Rightarrow> int \<Rightarrow> error + bool" where
  "size_differs t d v = ebind (tensor_size t d) (\<lambda>s. Inr (s \<noteq> v))"

definition sizes_differ :: "Tensor \<Rightarrow> int \<Rightarrow> Tensor \<Rightarrow> int \<Rightarrow> error + bool" where
  "sizes_differ a i b j =
     ebind (tensor_size a i) (\<lambda>x. ebind (tensor_size b j) (\<lambda>y. Inr (x \<noteq> y)))"

definition eor :: "error + bool \<Rightarrow> error + bool \<Rightarrow> error + bool" where
  "eor a b = ebind a (\<lambda>x. if x then Inr True else b)"

text \<open>
  \<open>checkargs(path, depth, basepoint, basepoint_value)\<close>; here the path is in the external
  layout (batch, stream, channel).
\<close>

definition checkargs :: "Tensor \<Rightarrow> int \<Rightarrow> bool \<Rightarrow> Tensor \<Rightarrow> error + unit" where
  "checkargs path depth' basepoint' basepoint_value =
     (if ndimension path \<noteq> 3 then Inl (InvalidArgument msg_path_ndimension)
      else
        ebind (eor (size_is path 0 0) (eor (size_is path 1 0) (size_is path 2 0))) (\<lambda>zero.
        if zero then Inl (InvalidArgument msg_path_zero)
        else
          ebind (if \<not> basepoint' then size_is path 1 1 else Inr False) (\<lambda>single.
          if single then Inl (InvalidArgument msg_path_stream)
          else if depth' < 1 then Inl (InvalidArgument msg_depth)
          else if basepoint' then
            (if ndimension basepoint_value \<noteq> 2 then
               Inl (InvalidArgument msg_basepoint_ndimension)
             else
               ebind (eor (sizes_differ basepoint_value 0 path 0)
                          (sizes_differ basepoint_value 1 path 2)) (\<lambda>differ.
               if differ then Inl (InvalidArgument msg_basepoint_size) else Inr ()))
          else Inr ())))"

text \<open>
  \<open>checkargs_backward(grad_out, sigspec, num_channels)\<close>; the value \<open>-1\<close> of
  \<open>num_channels\<close> (its default) stands for \<open>sigspec.output_channels\<close>.
\<close>

definition checkargs_backward :: "Tensor \<Rightarrow> SigSpec \<Rightarrow> int \<Rightarrow> error + unit" where
  "checkargs_backward grad_out sigspec' num_channels =
     (let num_channels' =
        (if num_channels = - 1 then output_channels sigspec' else num_channels)
      in
      if stream sigspec' then
        (if ndimension grad_out \<noteq> 3 then Inl (InvalidArgument msg_grad_ndimension3)
         else
           ebind (eor (size_differs grad_out 0 (batch_size sigspec'))
                   (eor (size_differs grad_out 1 (output_stream_size sigspec'))
                        (size_differs grad_out 2 num_channels'))) (\<lambda>wrong.
           if wrong then Inl (InvalidArgument msg_grad_size) else Inr ()))
      else
        (if ndimension grad_out \<noteq> 2 then Inl (InvalidArgument msg_grad_ndimension2)
         else
           ebind (eor (size_differs grad_out 0 (batch_size sigspec'))
                      (size_differs grad_out 1 num_channels')) (\<lambda>wrong.
           if wrong then Inl (InvalidArgument msg_grad_size) else Inr ())))"

section \<open>Notions for the statements\<close>

text \<open>
  \<open>axis_index\<close> is the position of the axis that an axis argument in
  \<open>[-n, n - 1]\<close> names. \<open>term_view t k c j\<close> is the view of \<open>t\<close> that starts
  \<open>c ^ 1 + ... + c ^ j\<close> positions into axis \<open>k\<close> and has \<open>c ^ (j + 1)\<close> positions
  there: the block of degree \<open>j + 1\<close>. \<open>at_stream t i\<close> is the view of \<open>t\<close> at position \<open>i\<close> of
  axis 0, without that axis.
\<close>

definition axis_index :: "Tensor \<Rightarrow> int \<Rightarrow> nat" where
  "axis_index t axis = nat (if axis < 0 then axis + ndimension t else axis)"

definition term_view :: "Tensor \<Rightarrow> nat \<Rightarrow> int \<Rightarrow> nat \<Rightarrow> Tensor" where
  "term_view t k c j =
     t\<lparr>storage_offset := storage_offset t + (\<Sum>i = 1..j. c ^ i) * snd (dims t ! k),
       dims := (dims t)[k := (c ^ Suc j, snd (dims t ! k))]\<rparr>"

definition at_stream :: "Tensor \<Rightarrow> int \<Rightarrow> Tensor" where
  "at_stream t stream_index =
     t\<lparr>storage_offset := storage_offset t + stream_index * snd (dims t ! 0),
       dims := tl (dims t)\<rparr>"

section \<open>A concrete scenario\<close>

text \<open>
  Batch 2, stream length 5, 3 channels, depth 3, as a contiguous tensor of 30 elements:
  \<open>example_path\<close> in the external layout (batch, stream, channel), and
  \<open>example_internal\<close>, the same storage in the internal layout (stream, channel, batch).
  \<open>example_signature\<close> is a signature of a stream: 4 stream positions, \<open>3 + 9 + 27 = 39\<close>
  channels, batch 2, in the internal layout.
\<close>

definition example_options :: TensorOptions where
  "example_options = \<lparr>dtype = Double, device = CPU\<rparr>"

definition example_path :: Tensor where
  "example_path =
     \<lparr>data = map rat_of_nat [0 ..< 30], storage_offset = 0,
      dims = [(2, 15), (5, 3), (3, 1)], options = example_options\<rparr>"

definition example_internal :: Tensor where
  "example_internal =
     \<lparr>data = map rat_of_nat [0 ..< 30], storage_offset = 0,
      dims = [(5, 3), (3, 1), (2, 15)], options = example_options\<rparr>"

definition example_basepoint :: Tensor where
  "example_basepoint =
     \<lparr>data = replicate 6 0, storage_offset = 0, dims = [(2, 3), (3, 1)],
      options = example_options\<rparr>"

definition example_reciprocals :: Tensor where
  "example_reciprocals =
     \<lparr>data = [1 / 2, 6004799503160661 / 18014398509481984], storage_offset = 0,
      dims = [(2, 1)],
      options = example_options\<rparr>"

definition example_sigspec :: SigSpec where
  "example_sigspec =
     \<lparr>opts = example_options, input_stream_size = 5, input_channels = 3, batch_size = 2,
      output_stream_size = 4, output_channels = 39, n_output_dims = 3, depth = 3,
      reciprocals = example_reciprocals, stream = True, basepoint = False\<rparr>"

definition example_signature :: Tensor where
  "example_signature =
     \<lparr>data = replicate 312 0, storage_offset = 0, dims = [(4, 78), (39, 2), (2, 1)],
      options = example_options\<rparr>"

definition example_grad :: Tensor where
  "example_grad =
     \<lparr>data = replicate 312 0, storage_offset = 0, dims = [(2, 1), (4, 78), (39, 2)],
      options = example_options\<rparr>"

definition example_state :: State where
  "example_state = \<lparr>heap = (\<lambda>p. None), last_address = 0, error_indicator = None\<rparr>"

text \<open>
  The three blocks of \<open>example_signature\<close> along its channel axis, and the same blocks
  at stream position 2.
\<close>

definition example_views :: "Tensor list" where
  "example_views =
     [example_signature\<lparr>storage_offset := 0, dims := [(4, 78), (3, 2), (2, 1)]\<rparr>,
      example_signature\<lparr>storage_offset := 6, dims := [(4, 78), (9, 2), (2, 1)]\<rparr>,
      example_signature\<lparr>storage_offset := 24, dims := [(4, 78), (27, 2), (2, 1)]\<rparr>]"

definition example_views_at_2 :: "Tensor list" where
  "example_views_at_2 =
     [example_signature\<lparr>storage_offset := 156, dims := [(3, 2), (2, 1)]\<rparr>,
      example_signature\<lparr>storage_offset := 162, dims := [(9, 2), (2, 1)]\<rparr>,
      example_signature\<lparr>storage_offset := 180, dims := [(27, 2), (2, 1)]\<rparr>]"

section \<open>Basic facts\<close>

lemma ebind_Inl [simp]: "ebind (Inl e) f = Inl e"
  by (simp add: ebind_def)

lemma ebind_Inr [simp]: "ebind (Inr v) f = f v"
  by (simp add: ebind_def)

lemma ebind_assoc: "ebind (ebind m f) g = ebind m (\<lambda>x. ebind (f x) g)"
  by (cases m) simp_all

lemma wrap64_id: "- (2 ^ 63) \<le> x \<Longrightarrow> x < 2 ^ 63 \<Longrightarrow> wrap64 x = x"
  by (simp add: wrap64_def)

lemma tensor_size_in_range:
  "0 \<le> d \<Longrightarrow> d < int (length (dims t)) \<Longrightarrow> tensor_size t d = Inr (fst (dims t ! nat d))"
  by (auto simp add: tensor_size_def maybe_wrap_dim_def ndimension_def Let_def)

lemma list2_eq: "length xs = 2 \<Longrightarrow> (xs = [a, b]) = (xs ! 0 = a \<and> xs ! 1 = b)"
  by (cases xs; cases "tl xs"; auto)

lemma list3_eq:
  "length xs = 3 \<Longrightarrow> (xs = [a, b, c]) = (xs ! 0 = a \<and> xs ! 1 = b \<and> xs ! 2 = c)"
  by (cases xs; cases "tl xs"; cases "tl (tl xs)"; auto)

lemma length2_ex: "length xs = 2 \<Longrightarrow> \<exists>a b. xs = [a, b]"
  by (auto simp add: length_Suc_conv numeral_2_eq_2)

lemma length3_ex: "length xs = 3 \<Longrightarrow> \<exists>a b c. xs = [a, b, c]"
  by (auto simp add: length_Suc_conv numeral_3_eq_3)

lemma maybe_wrap_dim_axis:
  assumes "- ndimension t \<le> axis" and "axis < ndimension t"
  shows "maybe_wrap_dim axis (ndimension t) w = Inr (int (axis_index t axis))"
    and "axis_index t axis < length (dims t)"
  using assms by (auto simp add: maybe_wrap_dim_def axis_index_def ndimension_def Let_def)

lemma narrow_in_range:
  assumes "- ndimension t \<le> axis" and "axis < ndimension t"
    and "0 \<le> start" and "0 \<le> len"
    and "start + len \<le> fst (dims t ! axis_index t axis)"
  shows "narrow t axis start len =
    Inr (t\<lparr>storage_offset := storage_offset t + start * snd (dims t ! axis_index t axis),
           dims := (dims t)[axis_index t axis :=
                     (len, snd (dims t ! axis_index t axis))]\<rparr>)"
proof -
  have n: "\<not> ndimension t \<le> 0"
    using assms(1,2) by simp
  have s: "tensor_size t axis = Inr (fst (dims t ! axis_index t axis))"
    by (simp add: tensor_size_def maybe_wrap_dim_axis [OF assms(1,2)])
  have w: "(if start \<noteq> fst (dims t ! axis_index t axis)
            then maybe_wrap_dim start (fst (dims t ! axis_index t axis)) True
            else Inr start) = Inr start"
    using assms(3,4,5) by (simp add: maybe_wrap_dim_def Let_def)
  show ?thesis
    using assms(4,5)
    by (simp add: narrow_def n s w maybe_wrap_dim_axis [OF assms(1,2)])
qed

lemma narrow_shape:
  assumes "- ndimension t \<le> axis" and "axis < ndimension t"
    and "narrow t axis start len = Inr v"
  shows "\<exists>s. v = t\<lparr>storage_offset := storage_offset t + s * snd (dims t ! axis_index t axis),
                    dims := (dims t)[axis_index t axis :=
                              (len, snd (dims t ! axis_index t axis))]\<rparr>"
  using assms(3)
  by (auto simp add: narrow_def tensor_size_def maybe_wrap_dim_axis [OF assms(1,2)] ebind_def
      split: if_splits sum.splits)

lemma tensor_transpose_in_range:
  "0 \<le> i \<Longrightarrow> i < int (length (dims t)) \<Longrightarrow> 0 \<le> j \<Longrightarrow> j < int (length (dims t)) \<Longrightarrow>
   tensor_transpose t i j =
     Inr (if i = j then t
          else t\<lparr>dims := (dims t)[nat i := dims t ! nat j, nat j := dims t ! nat i]\<rparr>)"
  by (auto simp add: tensor_transpose_def maybe_wrap_dim_def ndimension_def Let_def)

section \<open>Rounding to a dtype\<close>

text \<open>
  \<open>exponent\<close> is the binary exponent; \<open>round_to\<close> returns a multiple of the unit in the
  last place whose significand has \<open>precision\<close> bits (or is the next power of two), at
  most half a unit away from its argument, with an even significand on a tie; and it
  leaves the integers up to \<open>2 ^ precision\<close> as they are.
\<close>

lemma pow2_pos: "0 < pow2 e"
  by (simp add: pow2_def)

lemma pow2_powi: "pow2 e = 2 powi e"
  by (cases "0 \<le> e") (simp_all add: pow2_def power_int_def field_simps)

lemma pow2_add: "pow2 (a + b) = pow2 a * pow2 b"
  by (simp add: pow2_powi power_int_add)

lemma exponent_bounds:
  assumes "0 < x"
  shows "pow2 (exponent x) \<le> x" and "x < pow2 (exponent x + 1)"
proof -
  obtain a b where q: "quotient_of x = (a, b)" by (cases "quotient_of x")
  have b: "0 < b" using q by (rule quotient_of_denom_pos)
  have x: "x = of_int a / of_int b" using q by (rule quotient_of_div)
  have a: "0 < a" using assms b x by (simp add: zero_less_divide_iff)
  let ?la = "bitlen a" and ?lb = "bitlen b"
  have la: "1 \<le> ?la" and lb: "1 \<le> ?lb"
    using a b by (simp_all add: bitlen_alt_def)
  have a_lo: "pow2 (?la - 1) \<le> of_int a" and a_hi: "of_int a < pow2 ?la"
    and b_lo: "pow2 (?lb - 1) \<le> of_int b" and b_hi: "of_int b < pow2 ?lb"
  proof -
    have "(2::int) ^ nat (?la - 1) \<le> a" "a < 2 ^ nat ?la"
      "(2::int) ^ nat (?lb - 1) \<le> b" "b < 2 ^ nat ?lb"
      using bitlen_bounds [OF a] bitlen_bounds [OF b] by simp_all
    then have "(of_int ((2::int) ^ nat (?la - 1)) :: rat) \<le> of_int a"
      "(of_int a :: rat) < of_int (2 ^ nat ?la)"
      "(of_int ((2::int) ^ nat (?lb - 1)) :: rat) \<le> of_int b"
      "(of_int b :: rat) < of_int (2 ^ nat ?lb)"
      by (simp_all only: of_int_le_iff of_int_less_iff)
    then show "pow2 (?la - 1) \<le> of_int a" "of_int a < pow2 ?la"
      "pow2 (?lb - 1) \<le> of_int b" "of_int b < pow2 ?lb"
      using la lb by (simp_all add: pow2_def)
  qed
  have bpos: "(0::rat) < of_int b" using b by simp
  have lower: "pow2 (?la - ?lb - 1) \<le> x"
  proof -
    have "pow2 (?la - ?lb - 1) * of_int b \<le> pow2 (?la - ?lb - 1) * pow2 ?lb"
      using b_hi pow2_pos [of "?la - ?lb - 1"] by (simp add: mult_left_mono)
    also have "\<dots> = pow2 (?la - 1)"
      by (simp add: pow2_add [symmetric])
    also have "\<dots> \<le> of_int a" by (rule a_lo)
    finally show ?thesis
      using bpos by (simp add: x pos_le_divide_eq)
  qed
  have upper: "x < pow2 (?la - ?lb + 1)"
  proof -
    have "of_int a < pow2 ?la" by (rule a_hi)
    also have "\<dots> = pow2 (?la - ?lb + 1) * pow2 (?lb - 1)"
      by (simp add: pow2_add [symmetric])
    also have "\<dots> \<le> pow2 (?la - ?lb + 1) * of_int b"
      using b_lo pow2_pos [of "?la - ?lb + 1"] by (simp add: mult_left_mono)
    finally show ?thesis
      using bpos by (simp add: x pos_divide_less_eq)
  qed
  show "pow2 (exponent x) \<le> x"
    using lower by (simp add: exponent_def q Let_def)
  show "x < pow2 (exponent x + 1)"
    using upper by (auto simp add: exponent_def q Let_def not_le)
qed

lemma round_half_even_of_int: "round_half_even (of_int z) = z"
  by (simp add: round_half_even_def)

lemma round_half_even_nearest: "\<bar>of_int (round_half_even q) - q\<bar> \<le> 1 / 2"
proof -
  define f where "f = \<lfloor>q\<rfloor>"
  define r where "r = q - of_int f"
  have r: "0 \<le> r" "r < 1"
    unfolding r_def f_def by linarith+
  have q: "q = of_int f + r"
    by (simp add: r_def)
  have "round_half_even q =
      (if r < 1 / 2 then f else if 1 / 2 < r then f + 1 else if even f then f else f + 1)"
    by (simp add: round_half_even_def Let_def f_def r_def)
  then show ?thesis
    using r unfolding q by (auto simp add: abs_if)
qed

lemma round_half_even_tie:
  "q - of_int \<lfloor>q\<rfloor> = 1 / 2 \<Longrightarrow> even (round_half_even q)"
  by (simp add: round_half_even_def Let_def)

lemma round_to_nearest:
  assumes "x \<noteq> 0"
  shows "\<bar>round_to dt x - x\<bar> \<le> pow2 (exponent \<bar>x\<bar> - int (precision dt) + 1) / 2"
proof -
  let ?u = "pow2 (exponent \<bar>x\<bar> - int (precision dt) + 1)"
  have u: "0 < ?u" by (rule pow2_pos)
  have "(of_int (round_half_even (x / ?u)) - x / ?u) * ?u =
      of_int (round_half_even (x / ?u)) * ?u - x"
    using u by (simp add: left_diff_distrib)
  then have "\<bar>of_int (round_half_even (x / ?u)) * ?u - x\<bar> =
      \<bar>of_int (round_half_even (x / ?u)) - x / ?u\<bar> * \<bar>?u\<bar>"
    by (simp only: abs_mult [symmetric])
  then have "\<bar>round_to dt x - x\<bar> = \<bar>of_int (round_half_even (x / ?u)) - x / ?u\<bar> * ?u"
    using assms u by (simp add: round_to_def Let_def)
  also have "\<dots> \<le> 1 / 2 * ?u"
    using round_half_even_nearest [of "x / ?u"] u by (intro mult_right_mono) simp_all
  finally show ?thesis by simp
qed

lemma round_to_significand:
  assumes "0 < x"
  shows "round_to dt x =
           of_int (round_half_even (x / pow2 (exponent x - int (precision dt) + 1))) *
             pow2 (exponent x - int (precision dt) + 1)"
    and "2 ^ (precision dt - 1) \<le> round_half_even (x / pow2 (exponent x - int (precision dt) + 1))"
    and "round_half_even (x / pow2 (exponent x - int (precision dt) + 1)) \<le> 2 ^ precision dt"
proof -
  let ?p = "precision dt"
  let ?u = "pow2 (exponent x - int ?p + 1)"
  let ?q = "x / ?u"
  have u: "0 < ?u" by (rule pow2_pos)
  have p1: "1 \<le> ?p" by (cases dt) simp_all
  show "round_to dt x = of_int (round_half_even ?q) * ?u"
    using assms by (simp add: round_to_def Let_def)
  have "pow2 (int ?p - 1) * ?u = pow2 (exponent x)"
    by (simp add: pow2_add [symmetric])
  also have "\<dots> \<le> x" using assms by (rule exponent_bounds)
  finally have lo: "pow2 (int ?p - 1) \<le> ?q"
    using u by (simp add: pos_le_divide_eq)
  have "x < pow2 (exponent x + 1)" using assms by (rule exponent_bounds)
  also have "\<dots> = pow2 (int ?p) * ?u"
    by (simp add: pow2_add [symmetric])
  finally have hi: "?q < pow2 (int ?p)"
    using u by (simp add: pos_divide_less_eq)
  have lo': "(of_int (2 ^ (?p - 1)) :: rat) \<le> ?q"
    using lo p1 by (simp add: pow2_def nat_diff_distrib)
  have hi': "?q < of_int (2 ^ ?p)"
    using hi by (simp add: pow2_def)
  have fl: "2 ^ (?p - 1) \<le> \<lfloor>?q\<rfloor>" "\<lfloor>?q\<rfloor> < 2 ^ ?p"
    using lo' hi' by (simp_all only: le_floor_iff floor_less_iff)
  show "2 ^ (?p - 1) \<le> round_half_even ?q"
    using fl(1) by (auto simp add: round_half_even_def Let_def)
  show "round_half_even ?q \<le> 2 ^ ?p"
    using fl(2) by (auto simp add: round_half_even_def Let_def)
qed

lemma exponent_of_int:
  assumes "0 < n"
  shows "exponent (of_int n) = bitlen n - 1"
proof -
  have b1: "bitlen 1 = 1"
    by (simp add: bitlen_alt_def)
  have ge: "1 \<le> bitlen n"
    using assms by (simp add: bitlen_alt_def)
  have "(2::int) ^ nat (bitlen n - 1) \<le> n"
    using bitlen_bounds [OF assms] by simp
  then have "(of_int ((2::int) ^ nat (bitlen n - 1)) :: rat) \<le> of_int n"
    by (simp only: of_int_le_iff)
  then have "pow2 (bitlen n - 1) \<le> of_int n"
    using ge by (simp add: pow2_def)
  then show ?thesis
    by (simp add: exponent_def b1)
qed

lemma round_to_of_int:
  assumes "0 \<le> n" and "n \<le> 2 ^ precision dt"
  shows "round_to dt (of_int n) = of_int n"
proof (cases "n = 0")
  case True
  then show ?thesis by (simp add: round_to_def)
next
  case False
  then have pos: "0 < n" using assms(1) by simp
  let ?p = "int (precision dt)"
  let ?e = "bitlen n - 1"
  have p1: "1 \<le> ?p" by (cases dt) simp_all
  have ge: "1 \<le> bitlen n" using pos by (simp add: bitlen_alt_def)
  have lo: "(2::int) ^ nat ?e \<le> n" using bitlen_bounds [OF pos] by simp
  have "?e \<le> ?p"
  proof (rule ccontr)
    assume "\<not> ?e \<le> ?p"
    then have "precision dt < nat ?e" by simp
    then have "(2::int) ^ precision dt < 2 ^ nat ?e"
      by (rule power_strict_increasing) simp
    then show False using lo assms(2) by linarith
  qed
  then consider "?e \<le> ?p - 1" | "?e = ?p" by linarith
  then have "\<exists>z. of_int n / pow2 (?e - ?p + 1) = (of_int z :: rat)"
  proof cases
    case 1
    then have "pow2 (?e - ?p + 1) = 1 / 2 ^ nat (?p - 1 - ?e)"
      by (cases "?e = ?p - 1") (simp_all add: pow2_def algebra_simps)
    then have "of_int n / pow2 (?e - ?p + 1) = (of_int (n * 2 ^ nat (?p - 1 - ?e)) :: rat)"
      by simp
    then show ?thesis by blast
  next
    case 2
    then have n: "n = 2 ^ precision dt"
      using lo assms(2) by simp
    have "precision dt = Suc (precision dt - 1)"
      using p1 by simp
    then have "(2::rat) ^ precision dt = 2 * 2 ^ (precision dt - 1)"
      by (metis power_Suc)
    then have "of_int n / pow2 (?e - ?p + 1) = (of_int (2 ^ (precision dt - 1)) :: rat)"
      using 2 by (simp add: pow2_def n)
    then show ?thesis by blast
  qed
  then obtain z where z: "of_int n / pow2 (?e - ?p + 1) = (of_int z :: rat)" by blast
  have "round_to dt (of_int n) =
      of_int (round_half_even (of_int n / pow2 (?e - ?p + 1))) * pow2 (?e - ?p + 1)"
    using pos by (simp add: round_to_def exponent_of_int Let_def)
  also have "\<dots> = of_int n / pow2 (?e - ?p + 1) * pow2 (?e - ?p + 1)"
    by (simp only: z round_half_even_of_int)
  also have "\<dots> = of_int n"
    using pow2_pos [of "?e - ?p + 1"] by simp
  finally show ?thesis .
qed

section \<open>The arguments are checked in order\<close>

text \<open>
  Claim C3. On a path whose lengths are not negative, \<open>checkargs\<close> tests its conditions
  in this order and throws \<open>InvalidArgument\<close> with the message of the first one that is
  violated: the path has 3 axes; no axis of the path has length zero; without a
  basepoint the stream axis (axis 1) has length at least 2; the depth is at least 1; with
  a basepoint, \<open>basepoint_value\<close> has 2 axes, and its two lengths are those of axes 0
  (batch) and 2 (channel) of the path. When none is violated it returns.
\<close>

theorem checkargs_first_violation:
  assumes "\<forall>s \<in> set (sizes path). 0 \<le> s"
  shows "checkargs path depth' basepoint' basepoint_value =
    (if length (sizes path) \<noteq> 3 then Inl (InvalidArgument msg_path_ndimension)
     else if sizes path ! 0 = 0 \<or> sizes path ! 1 = 0 \<or> sizes path ! 2 = 0 then
       Inl (InvalidArgument msg_path_zero)
     else if \<not> basepoint' \<and> sizes path ! 1 < 2 then Inl (InvalidArgument msg_path_stream)
     else if depth' < 1 then Inl (InvalidArgument msg_depth)
     else if basepoint' \<and> length (sizes basepoint_value) \<noteq> 2 then
       Inl (InvalidArgument msg_basepoint_ndimension)
     else if basepoint' \<and> (sizes basepoint_value ! 0 \<noteq> sizes path ! 0 \<or>
                            sizes basepoint_value ! 1 \<noteq> sizes path ! 2) then
       Inl (InvalidArgument msg_basepoint_size)
     else Inr ())"
proof (cases "length (dims path) = 3")
  case False
  then show ?thesis by (simp add: checkargs_def ndimension_def sizes_def)
next
  case True
  have s1: "0 \<le> fst (dims path ! 1)"
    using assms True by (simp add: sizes_def)
  have p: "tensor_size path 0 = Inr (fst (dims path ! 0))"
    "tensor_size path 1 = Inr (fst (dims path ! 1))"
    "tensor_size path 2 = Inr (fst (dims path ! 2))"
    using True tensor_size_in_range [of 0 path] tensor_size_in_range [of 1 path]
      tensor_size_in_range [of 2 path] by simp_all
  have one: "fst (dims path ! 1) \<noteq> 0 \<Longrightarrow> (fst (dims path ! 1) = 1) = (fst (dims path ! 1) < 2)"
    using s1 by arith
  show ?thesis
  proof (cases "basepoint' \<and> length (dims basepoint_value) = 2")
    case False
    then show ?thesis
      using True one
      by (auto simp add: checkargs_def ndimension_def sizes_def p eor_def size_is_def)
  next
    case b: True
    have q: "tensor_size basepoint_value 0 = Inr (fst (dims basepoint_value ! 0))"
      "tensor_size basepoint_value 1 = Inr (fst (dims basepoint_value ! 1))"
      using b tensor_size_in_range [of 0 basepoint_value]
        tensor_size_in_range [of 1 basepoint_value] by simp_all
    show ?thesis
      using True b
      by (auto simp add: checkargs_def ndimension_def sizes_def p q eor_def size_is_def
          sizes_differ_def)
  qed
qed

theorem checkargs_first_violation_witness:
  "sizes example_path = [2, 5, 3] \<and>
   checkargs example_path 3 False example_basepoint = Inr () \<and>
   checkargs example_path 0 True example_basepoint = Inl (InvalidArgument msg_depth) \<and>
   checkargs example_path 3 True example_path =
     Inl (InvalidArgument msg_basepoint_ndimension)"
proof -
  have h: "\<forall>s \<in> set (sizes example_path). 0 \<le> s"
    by (simp add: sizes_def example_path_def)
  show ?thesis
    using checkargs_first_violation [OF h, of 3 False example_basepoint]
      checkargs_first_violation [OF h, of 0 True example_basepoint]
      checkargs_first_violation [OF h, of 3 True example_path]
    by (simp add: sizes_def example_path_def example_basepoint_def)
qed

text \<open>
  Claim C10. Without a basepoint the result of \<open>checkargs\<close>, the acceptance or the
  exception, does not depend on \<open>basepoint_value\<close>, whatever its axes are.
\<close>

theorem checkargs_ignores_basepoint_value:
  "checkargs path depth' False basepoint_value = checkargs path depth' False basepoint_value'"
  by (simp add: checkargs_def)

theorem checkargs_ignores_basepoint_value_witness:
  "checkargs example_path 3 False example_basepoint = Inr () \<and>
   checkargs example_path 3 False example_path = Inr ()"
  using checkargs_ignores_basepoint_value [of example_path 3 example_basepoint example_path]
  by (simp add: checkargs_def example_path_def ndimension_def eor_def size_is_def
      tensor_size_def maybe_wrap_dim_def)

text \<open>
  Claim C5. With \<open>n\<close> the number of channels that \<open>num_channels\<close> stands for
  (\<open>sigspec.output_channels\<close> when it is \<open>-1\<close>): \<open>checkargs_backward\<close> accepts the
  gradient exactly when its lengths are \<open>(batch_size, output_stream_size, n)\<close> for a
  stream and \<open>(batch_size, n)\<close> otherwise. Another number of axes throws
  \<open>InvalidArgument\<close> with the message about the axes, and the right number of axes with
  another length throws it with \<open>Gradient has the wrong size.\<close> The function returns
  nothing else and changes nothing.
\<close>

theorem checkargs_backward_accepts_iff:
  "checkargs_backward grad_out sigspec' num_channels =
    (let n = (if num_channels = - 1 then output_channels sigspec' else num_channels) in
     if stream sigspec' then
       (if length (sizes grad_out) \<noteq> 3 then Inl (InvalidArgument msg_grad_ndimension3)
        else if sizes grad_out = [batch_size sigspec', output_stream_size sigspec', n]
          then Inr ()
        else Inl (InvalidArgument msg_grad_size))
     else
       (if length (sizes grad_out) \<noteq> 2 then Inl (InvalidArgument msg_grad_ndimension2)
        else if sizes grad_out = [batch_size sigspec', n] then Inr ()
        else Inl (InvalidArgument msg_grad_size)))"
proof -
  let ?s = "sizes grad_out"
  have len: "length ?s = length (dims grad_out)" by (simp add: sizes_def)
  have nd: "ndimension grad_out = int (length ?s)" by (simp add: ndimension_def sizes_def)
  have sz: "\<And>d. 0 \<le> d \<Longrightarrow> d < int (length ?s) \<Longrightarrow> tensor_size grad_out d = Inr (?s ! nat d)"
    using tensor_size_in_range [of _ grad_out] by (simp add: sizes_def)
  show ?thesis
  proof (cases "stream sigspec'")
    case True
    show ?thesis
    proof (cases "length ?s = 3")
      case False
      then show ?thesis using True by (simp add: checkargs_backward_def nd Let_def)
    next
      case l: True
      have p: "tensor_size grad_out 0 = Inr (?s ! 0)" "tensor_size grad_out 1 = Inr (?s ! 1)"
        "tensor_size grad_out 2 = Inr (?s ! 2)"
        using sz [of 0] sz [of 1] sz [of 2] l by simp_all
      show ?thesis
        using True l
        by (simp add: checkargs_backward_def nd Let_def p eor_def size_differs_def list3_eq)
    qed
  next
    case False
    show ?thesis
    proof (cases "length ?s = 2")
      case f: False
      then show ?thesis using False by (simp add: checkargs_backward_def nd Let_def)
    next
      case l: True
      have p: "tensor_size grad_out 0 = Inr (?s ! 0)" "tensor_size grad_out 1 = Inr (?s ! 1)"
        using sz [of 0] sz [of 1] l by simp_all
      show ?thesis
        using False l
        by (simp add: checkargs_backward_def nd Let_def p eor_def size_differs_def list2_eq)
    qed
  qed
qed

theorem checkargs_backward_accepts_iff_witness:
  "checkargs_backward example_grad example_sigspec (- 1) = Inr () \<and>
   checkargs_backward example_grad example_sigspec 38 = Inl (InvalidArgument msg_grad_size) \<and>
   checkargs_backward example_basepoint example_sigspec (- 1) =
     Inl (InvalidArgument msg_grad_ndimension3)"
  using checkargs_backward_accepts_iff [of example_grad example_sigspec "- 1"]
    checkargs_backward_accepts_iff [of example_grad example_sigspec 38]
    checkargs_backward_accepts_iff [of example_basepoint example_sigspec "- 1"]
  by (simp add: sizes_def example_grad_def example_sigspec_def example_basepoint_def)

section \<open>The layout conversions are inverse\<close>

text \<open>
  Claim C4. For a tensor \<open>x\<close> of 3 axes when \<open>sigspec.stream\<close> holds, and of 2 axes
  otherwise, \<open>transpose\<close> returns a view \<open>y\<close> of the same storage at the same offset, and
  \<open>transpose_reverse\<close> of \<open>y\<close> returns \<open>x\<close> itself: the same storage, offset, lengths and
  strides, so that every index reads the same element. Neither conversion copies data.
\<close>

theorem transpose_reverse_transpose:
  assumes "length (dims x) = (if stream sigspec' then 3 else 2)"
  shows "\<exists>y z. transpose_layout x sigspec' = Inr y \<and> data y = data x \<and>
               storage_offset y = storage_offset x \<and>
               transpose_reverse y sigspec' = Inr z \<and> z = x \<and>
               (\<forall>idx. item z idx = item x idx)"
proof (cases "stream sigspec'")
  case True
  then obtain a b c where d: "dims x = [a, b, c]"
    using assms length3_ex [of "dims x"] by auto
  show ?thesis
    using True d
    by (simp add: transpose_layout_def transpose_reverse_def tensor_transpose_in_range)
next
  case False
  then obtain a b where d: "dims x = [a, b]"
    using assms length2_ex [of "dims x"] by auto
  show ?thesis
    using False d
    by (simp add: transpose_layout_def transpose_reverse_def tensor_transpose_in_range)
qed

theorem transpose_reverse_transpose_witness:
  "transpose_layout example_internal example_sigspec = Inr example_path \<and>
   transpose_reverse example_path example_sigspec = Inr example_internal"
proof -
  have h: "length (dims example_internal) = (if stream example_sigspec then 3 else 2)"
    by (simp add: example_internal_def example_sigspec_def)
  have t: "transpose_layout example_internal example_sigspec = Inr example_path"
    by (simp add: transpose_layout_def tensor_transpose_in_range example_internal_def
        example_sigspec_def example_path_def)
  show ?thesis
    using transpose_reverse_transpose [OF h] t by auto
qed

section \<open>The context round trip\<close>

text \<open>
  Claim C8. The handle that \<open>make_backwards_info\<close> returns gives, through
  \<open>get_backwards_info\<close>, a pointer that is not null and no Python error; the object at
  that pointer has the \<open>sigspec\<close>, \<open>out_vector\<close>, \<open>out\<close> and \<open>path_increments\<close> that were
  passed in. \<open>set_logsignature_data\<close> on that object assigns the four members of the
  log signature and no other member.
\<close>

theorem make_get_round_trip:
  "(case make_backwards_info out_vector' out' path_increments' sigspec' st of (h, st1) \<Rightarrow>
      case get_backwards_info h st1 of (p, st2) \<Rightarrow>
        p \<noteq> 0 \<and> error_indicator st2 = error_indicator st \<and>
        (case heap st2 p of
           None \<Rightarrow> False
         | Some b \<Rightarrow>
             sigspec b = sigspec' \<and> out_vector b = out_vector' \<and> out b = out' \<and>
             path_increments b = path_increments' \<and>
             set_logsignature_data b sv tr m lc =
               b\<lparr>signature_vector := sv, transforms := tr, mode := Some m,
                  logsignature_channels := Some lc\<rparr> \<and>
             sigspec (set_logsignature_data b sv tr m lc) = sigspec' \<and>
             out_vector (set_logsignature_data b sv tr m lc) = out_vector' \<and>
             out (set_logsignature_data b sv tr m lc) = out' \<and>
             path_increments (set_logsignature_data b sv tr m lc) = path_increments'))"
  by (simp add: make_backwards_info_def operator_new_def PyCapsule_New_def Let_def
      get_backwards_info_def PyCapsule_GetPointer_def BackwardsInfo_ctor_def
      set_logsignature_data_def)

theorem make_get_round_trip_witness:
  "make_backwards_info example_views example_signature example_internal example_sigspec
     example_state =
     (Some (PyCapsule 1 (Some backwards_info_capsule_name)
        (Some BackwardsInfoCapsuleDestructor)),
      example_state\<lparr>heap := (heap example_state)(1 := Some (BackwardsInfo_ctor
          example_sigspec example_views example_signature example_internal)),
        last_address := 1\<rparr>) \<and>
   fst (get_backwards_info (Some (PyCapsule 1 (Some backwards_info_capsule_name)
        (Some BackwardsInfoCapsuleDestructor)))
      (example_state\<lparr>heap := (heap example_state)(1 := Some (BackwardsInfo_ctor
          example_sigspec example_views example_signature example_internal)),
        last_address := 1\<rparr>)) = 1 \<and>
   out_vector (set_logsignature_data (BackwardsInfo_ctor
          example_sigspec example_views example_signature example_internal)
        example_views [(0, 1, 2)] Words 14) = example_views"
  using make_get_round_trip [where out_vector' = example_views and out' = example_signature
      and path_increments' = example_internal and sigspec' = example_sigspec
      and st = example_state and sv = example_views and tr = "[(0, 1, 2)]" and m = Words
      and lc = 14]
  by (simp add: make_backwards_info_def operator_new_def PyCapsule_New_def Let_def
      get_backwards_info_def PyCapsule_GetPointer_def example_state_def)

text \<open>
  Claim C9. \<open>get_backwards_info\<close> returns the pointer of a capsule exactly when the
  capsule holds a pointer and its name is \<open>backwards_info_capsule_name\<close>, and then the
  state is unchanged. For every other handle (another name, no name, no pointer, not a
  capsule, a null handle) it returns the null pointer and sets the error indicator to
  \<open>ValueError\<close>; the free store is as it was, so no object is made or repaired.
\<close>

theorem get_backwards_info_checks_tag:
  "get_backwards_info (Some (PyCapsule p n d)) st =
     (if p \<noteq> 0 \<and> n = Some backwards_info_capsule_name then (p, st)
      else (0, st\<lparr>error_indicator := Some (ValueError
              (if p = 0 then ''PyCapsule_GetPointer called with invalid PyCapsule object''
               else ''PyCapsule_GetPointer called with incorrect name''))\<rparr>)) \<and>
   get_backwards_info (Some PyOther) st =
     (0, st\<lparr>error_indicator := Some (ValueError
            ''PyCapsule_GetPointer called with invalid PyCapsule object'')\<rparr>) \<and>
   get_backwards_info None st =
     (0, st\<lparr>error_indicator := Some (ValueError
            ''PyCapsule_GetPointer called with invalid PyCapsule object'')\<rparr>)"
  by (simp add: get_backwards_info_def PyCapsule_GetPointer_def)

theorem get_backwards_info_checks_tag_witness:
  "get_backwards_info (Some (PyCapsule 1 (Some ''signatory.BackwardsInfoCapsule'') None))
     example_state = (1, example_state) \<and>
   get_backwards_info (Some (PyCapsule 1 (Some ''some.OtherCapsule'') None)) example_state =
     (0, example_state\<lparr>error_indicator :=
        Some (ValueError ''PyCapsule_GetPointer called with incorrect name'')\<rparr>)"
  using get_backwards_info_checks_tag
      [of 1 "Some ''signatory.BackwardsInfoCapsule''" None example_state]
    get_backwards_info_checks_tag [of 1 "Some ''some.OtherCapsule''" None example_state]
  by (simp add: backwards_info_capsule_name_def)

text \<open>
  The destructor of the capsule releases the object that the handle owns.
\<close>

lemma destructor_releases:
  "(case make_backwards_info out_vector' out' path_increments' sigspec' st of (h, st1) \<Rightarrow>
      case get_backwards_info h st1 of (p, st2) \<Rightarrow>
        heap (BackwardsInfoCapsuleDestructor_call h st1) p = None)"
  by (simp add: make_backwards_info_def operator_new_def PyCapsule_New_def Let_def
      get_backwards_info_def PyCapsule_GetPointer_def BackwardsInfoCapsuleDestructor_call_def
      operator_delete_def)

section \<open>The constructor of SigSpec\<close>

lemma signature_channels_sum:
  "signature_channels c d = (\<Sum>i = 1..nat d. c ^ i)"
proof -
  have "signature_channels c d = (\<Sum>i \<in> {1..d}. c ^ nat i)"
    by (simp add: signature_channels_def sum_list_distinct_conv_sum_set)
  also have "\<dots> = (\<Sum>i \<in> {1..nat d}. c ^ i)"
    by (rule sum.reindex_bij_witness [where i = int and j = nat]) auto
  finally show ?thesis .
qed

lemma fold_update_length:
  "length (fold (\<lambda>i d. d[i := g (d ! i / l ! i)]) [0 ..< m] (d :: rat list)) = length d"
  by (induction m) simp_all

lemma fold_update_nth:
  "fold (\<lambda>i d. d[i := g (d ! i / l ! i)]) [0 ..< m] (d :: rat list) ! k =
     (if k < m \<and> k < length d then g (d ! k / l ! k) else d ! k)"
proof (induction m arbitrary: k)
  case 0
  then show ?case by simp
next
  case (Suc m)
  show ?case
    by (cases "k = m") (auto simp add: Suc fold_update_length list_update_beyond)
qed

lemma torch_linspace_from_2:
  assumes "2 \<le> d" and "d \<le> 2 ^ precision (dtype opt)"
  shows "torch_linspace 2 (of_int d) (d - 1) opt =
    Inr \<lparr>data = map (\<lambda>i. 2 + of_nat i) [0 ..< nat (d - 1)], storage_offset = 0,
         dims = [(d - 1, 1)], options = opt\<rparr>"
proof -
  let ?fl = "round_to (dtype opt)"
  have int: "?fl (of_int n) = of_int n" if "0 \<le> n" "n \<le> d" for n
    using that assms(2) by (intro round_to_of_int) simp_all
  have nat: "?fl (of_nat i) = of_nat i" if "int i \<le> d" for i
    using int [of "int i"] that by simp
  have two: "?fl 2 = 2"
    using int [of 2] assms(1) by simp
  have one: "?fl 1 = 1"
    using int [of 1] assms(1) by simp
  have dd: "?fl (of_int d) = of_int d"
    using int [of d] assms(1) by simp
  have diff: "?fl (of_int d - 2) = of_int d - 2"
    using int [of "d - 2"] assms(1) by simp
  show ?thesis
  proof (cases "d = 2")
    case True
    then show ?thesis by (simp add: torch_linspace_def Let_def two)
  next
    case False
    then have nz: "rat_of_int d - 2 \<noteq> 0"
      by (metis eq_iff_diff_eq_0 of_int_eq_numeral_iff)
    have elem: "?fl (2 + ?fl (1 * ?fl (of_nat i))) = 2 + of_nat i"
      if "i \<in> set [0 ..< nat (d - 1)]" for i
    proof -
      from that have i: "int i + 2 \<le> d" by simp
      then have "?fl (of_nat i) = of_nat i" by (intro nat) simp
      moreover have "?fl (of_int (2 + int i)) = of_int (2 + int i)"
        using i by (intro int) simp_all
      ultimately show ?thesis by simp
    qed
    have "map (\<lambda>i. ?fl (2 + ?fl (1 * ?fl (of_nat i)))) [0 ..< nat (d - 1)] =
        map (\<lambda>i. 2 + of_nat i) [0 ..< nat (d - 1)]"
      by (rule map_cong [OF refl]) (rule elem)
    then show ?thesis
      using assms(1) False nz by (simp add: torch_linspace_def Let_def two dd diff one)
  qed
qed

lemma torch_linspace_shape:
  assumes "0 \<le> n"
  shows "\<exists>l. torch_linspace a b n opt = Inr l \<and> dims l = [(n, 1)] \<and> storage_offset l = 0"
  using assms by (simp add: torch_linspace_def Let_def)

lemma reciprocals_returns:
  assumes "1 \<le> depth'" and "depth' < 2 ^ 63"
  shows "\<exists>r. ebind (torch_ones [wrap64 (depth' - 1)] opt) (\<lambda>ones.
           if 1 < depth' then
             ebind (torch_linspace 2 (of_int depth') (wrap64 (depth' - 1)) opt)
               (\<lambda>lin. div_inplace ones lin)
           else Inr ones) = Inr r \<and>
         dims r = [(depth' - 1, 1)] \<and> storage_offset r = 0 \<and>
         (depth' \<le> 2 ^ precision (dtype opt) \<longrightarrow>
            (\<forall>k < nat (depth' - 1).
               data r ! k = round_to (dtype opt) (1 / (of_nat k + 2))))"
proof -
  have w: "wrap64 (depth' - 1) = depth' - 1"
    using assms by (intro wrap64_id) simp_all
  show ?thesis
  proof (cases "1 < depth'")
    case False
    then have "depth' = 1" using assms(1) by simp
    then show ?thesis by (simp add: wrap64_def torch_ones_def)
  next
    case True
    then have d2: "2 \<le> depth'" by simp
    obtain l where l: "torch_linspace 2 (of_int depth') (depth' - 1) opt = Inr l"
      and dl: "dims l = [(depth' - 1, 1)]" and ol: "storage_offset l = 0"
      using torch_linspace_shape [of "depth' - 1" 2 "of_int depth'" opt] d2 by auto
    have exact: "data l = map (\<lambda>i. 2 + of_nat i) [0 ..< nat (depth' - 1)]"
      if "depth' \<le> 2 ^ precision (dtype opt)"
      using torch_linspace_from_2 [OF d2 that] l by simp
    let ?r = "\<lparr>data = fold (\<lambda>i d. d[i := round_to (dtype opt) (d ! i / data l ! i)])
                  [0 ..< nat (depth' - 1)] (replicate (nat (depth' - 1)) 1),
               storage_offset = 0, dims = [(depth' - 1, 1)], options = opt\<rparr>"
    have run: "ebind (torch_ones [wrap64 (depth' - 1)] opt) (\<lambda>ones.
           if 1 < depth' then
             ebind (torch_linspace 2 (of_int depth') (wrap64 (depth' - 1)) opt)
               (\<lambda>lin. div_inplace ones lin)
           else Inr ones) = Inr ?r"
      using True d2 by (simp add: w torch_ones_def l div_inplace_def sizes_def dl ol)
    have val: "data ?r ! k = round_to (dtype opt) (1 / (of_nat k + 2))"
      if "depth' \<le> 2 ^ precision (dtype opt)" and "k < nat (depth' - 1)" for k
      using that(2) by (simp add: fold_update_nth exact [OF that(1)] add.commute)
    show ?thesis
      using run val by (intro exI [of _ ?r]) simp
  qed
qed

lemma SigSpec_ctor_returns:
  assumes "3 \<le> length (dims path)" and "1 \<le> depth'" and "depth' < 2 ^ 63"
  shows "\<exists>r. SigSpec_ctor path depth' stream' basepoint' =
    Inr \<lparr>opts = \<lparr>dtype = dtype (options path), device = device (options path)\<rparr>,
         input_stream_size = fst (dims path ! 0),
         input_channels = fst (dims path ! 1),
         batch_size = fst (dims path ! 2),
         output_stream_size = wrap64 (fst (dims path ! 0) - (if basepoint' then 0 else 1)),
         output_channels = signature_channels (fst (dims path ! 1)) depth',
         n_output_dims = (if stream' then 3 else 2),
         depth = depth',
         reciprocals = r,
         stream = stream',
         basepoint = basepoint'\<rparr> \<and>
       dims r = [(depth' - 1, 1)] \<and> storage_offset r = 0 \<and>
       (depth' \<le> 2 ^ precision (dtype (options path)) \<longrightarrow>
          (\<forall>k < nat (depth' - 1).
             data r ! k = round_to (dtype (options path)) (1 / (of_nat k + 2))))"
proof -
  let ?o = "\<lparr>dtype = dtype (options path), device = device (options path)\<rparr>"
  have ne: "dims path \<noteq> []"
    using assms(1) by auto
  have p: "tensor_size path 0 = Inr (fst (dims path ! 0))"
    "tensor_size path 1 = Inr (fst (dims path ! 1))"
    "tensor_size path 2 = Inr (fst (dims path ! 2))"
    using assms(1) ne by (simp_all add: tensor_size_in_range)
  obtain r where r: "ebind (torch_ones [wrap64 (depth' - 1)] ?o) (\<lambda>ones.
           if 1 < depth' then
             ebind (torch_linspace 2 (of_int depth') (wrap64 (depth' - 1)) ?o)
               (\<lambda>lin. div_inplace ones lin)
           else Inr ones) = Inr r"
    and rr: "dims r = [(depth' - 1, 1)]" "storage_offset r = 0"
         "depth' \<le> 2 ^ precision (dtype ?o) \<longrightarrow>
            (\<forall>k < nat (depth' - 1). data r ! k = round_to (dtype ?o) (1 / (of_nat k + 2)))"
    using reciprocals_returns [OF assms(2,3), of ?o] by blast
  have "SigSpec_ctor path depth' stream' basepoint' =
    Inr \<lparr>opts = ?o,
         input_stream_size = fst (dims path ! 0),
         input_channels = fst (dims path ! 1),
         batch_size = fst (dims path ! 2),
         output_stream_size = wrap64 (fst (dims path ! 0) - (if basepoint' then 0 else 1)),
         output_channels = signature_channels (fst (dims path ! 1)) depth',
         n_output_dims = (if stream' then 3 else 2),
         depth = depth',
         reciprocals = r,
         stream = stream',
         basepoint = basepoint'\<rparr>"
    using r by (cases "torch_ones [wrap64 (depth' - 1)] ?o")
      (simp_all add: SigSpec_ctor_def Let_def p)
  then show ?thesis using rr by auto
qed

lemma example_roundings:
  "round_to Double 0 = 0" "round_to Double 1 = 1" "round_to Double 2 = 2"
  "round_to Double 3 = 3"
  "round_to Double (1 / 2) = 1 / 2"
  "round_to Double (1 / 3) = 6004799503160661 / 18014398509481984"
  by code_simp+

lemma example_SigSpec_ctor:
  "SigSpec_ctor example_internal 3 True False = Inr example_sigspec"
  by (simp add: SigSpec_ctor_def Let_def example_internal_def example_sigspec_def
      example_reciprocals_def example_options_def tensor_size_def maybe_wrap_dim_def
      ndimension_def wrap64_def torch_ones_def torch_linspace_def div_inplace_def sizes_def
      signature_channels_def upto.simps numeral_2_eq_2 example_roundings)

text \<open>
  Claim C2. For a path of at least 3 axes with \<open>channels \<ge> 1\<close> positions on axis 1 and
  an \<open>int64_t\<close> depth of at least 1, the constructor returns, and \<open>output_channels\<close> is the
  sum of \<open>channels ^ i\<close> for \<open>i\<close> from 1 to the depth; for depth 1 it is \<open>channels\<close>.
\<close>

theorem SigSpec_output_channels:
  assumes "3 \<le> length (sizes path)" and "1 \<le> sizes path ! 1"
    and "1 \<le> depth'" and "depth' < 2 ^ 63"
  shows "\<exists>spec. SigSpec_ctor path depth' stream' basepoint' = Inr spec \<and>
           input_channels spec = sizes path ! 1 \<and>
           output_channels spec = (\<Sum>i = 1..nat depth'. (sizes path ! 1) ^ i) \<and>
           (depth' = 1 \<longrightarrow> output_channels spec = sizes path ! 1)"
proof -
  have l: "3 \<le> length (dims path)"
    using assms(1) by (simp add: sizes_def)
  have s: "fst (dims path ! 1) = sizes path ! 1"
    using l by (simp add: sizes_def)
  obtain spec where c: "SigSpec_ctor path depth' stream' basepoint' = Inr spec"
    and i: "input_channels spec = fst (dims path ! 1)"
    and oc: "output_channels spec = signature_channels (fst (dims path ! 1)) depth'"
    using SigSpec_ctor_returns [OF l assms(3,4), of stream' basepoint'] by force
  have "output_channels spec = (\<Sum>i = 1..nat depth'. (sizes path ! 1) ^ i)"
    unfolding oc s by (rule signature_channels_sum)
  moreover from this have "depth' = 1 \<longrightarrow> output_channels spec = sizes path ! 1"
    by simp
  ultimately show ?thesis
    using c i s by metis
qed

theorem SigSpec_output_channels_witness:
  "3 \<le> length (sizes example_internal) \<and> 1 \<le> sizes example_internal ! 1 \<and>
   SigSpec_ctor example_internal 3 True False = Inr example_sigspec \<and>
   output_channels example_sigspec = 39 \<and>
   (\<Sum>i = 1..nat 3. (sizes example_internal ! 1) ^ i) = 39"
proof -
  have h: "3 \<le> length (sizes example_internal)" "1 \<le> sizes example_internal ! 1"
    "(1::int) \<le> 3" "(3::int) < 2 ^ 63"
    by (simp_all add: sizes_def example_internal_def)
  have o: "output_channels example_sigspec = 39"
    by (simp add: example_sigspec_def)
  obtain spec where "SigSpec_ctor example_internal 3 True False = Inr spec"
    and "output_channels spec = (\<Sum>i = 1..nat 3. (sizes example_internal ! 1) ^ i)"
    using SigSpec_output_channels [OF h, of True False] by blast
  then have "(\<Sum>i = 1..nat 3. (sizes example_internal ! 1) ^ i) = 39"
    using o by (simp add: example_SigSpec_ctor)
  then show ?thesis
    using h(1,2) o example_SigSpec_ctor by simp
qed

text \<open>
  Claim C6. For an \<open>int64_t\<close> depth of at least 1 the constructor returns, and
  \<open>reciprocals\<close> is a tensor of one axis of length \<open>depth - 1\<close>, with no element for
  depth 1. Its elements are computed in the dtype of the path: when the depth is at
  most \<open>2 ^ precision\<close> of that dtype (so that \<open>2, ..., depth\<close> are numbers of the
  dtype), the element at index \<open>k\<close> is \<open>1 / (k + 2)\<close> rounded to the dtype. It is
  \<open>1 / (k + 2)\<close> itself only where that is a number of the dtype: for depth 3 in double
  precision the element at index 1 is \<open>6004799503160661 / 2 ^ 54\<close>, not \<open>1 / 3\<close>.
\<close>

theorem SigSpec_reciprocals:
  assumes "3 \<le> length (sizes path)" and "1 \<le> depth'" and "depth' < 2 ^ 63"
  shows "\<exists>spec. SigSpec_ctor path depth' stream' basepoint' = Inr spec \<and>
           sizes (reciprocals spec) = [depth' - 1] \<and>
           (depth' = 1 \<longrightarrow> sizes (reciprocals spec) = [0]) \<and>
           (depth' \<le> 2 ^ precision (dtype (options path)) \<longrightarrow>
              (\<forall>k < nat (depth' - 1).
                 item (reciprocals spec) [int k] =
                   round_to (dtype (options path)) (1 / (of_nat k + 2))))"
proof -
  have l: "3 \<le> length (dims path)"
    using assms(1) by (simp add: sizes_def)
  obtain spec where c: "SigSpec_ctor path depth' stream' basepoint' = Inr spec"
    and d: "dims (reciprocals spec) = [(depth' - 1, 1)]"
    and z: "storage_offset (reciprocals spec) = 0"
    and v: "depth' \<le> 2 ^ precision (dtype (options path)) \<longrightarrow>
              (\<forall>k < nat (depth' - 1).
                 data (reciprocals spec) ! k =
                   round_to (dtype (options path)) (1 / (of_nat k + 2)))"
    using SigSpec_ctor_returns [OF l assms(2,3), of stream' basepoint'] by force
  have "sizes (reciprocals spec) = [depth' - 1]"
    using d by (simp add: sizes_def)
  moreover have "depth' \<le> 2 ^ precision (dtype (options path)) \<longrightarrow>
      (\<forall>k < nat (depth' - 1).
         item (reciprocals spec) [int k] =
           round_to (dtype (options path)) (1 / (of_nat k + 2)))"
    using v by (simp add: item_def d z)
  ultimately show ?thesis
    using c by auto
qed

theorem SigSpec_reciprocals_witness:
  "3 \<le> length (sizes example_internal) \<and>
   (3::int) \<le> 2 ^ precision (dtype (options example_internal)) \<and>
   SigSpec_ctor example_internal 3 True False = Inr example_sigspec \<and>
   sizes (reciprocals example_sigspec) = [2] \<and>
   item (reciprocals example_sigspec) [0] = 1 / 2 \<and>
   item (reciprocals example_sigspec) [1] = 6004799503160661 / 18014398509481984"
proof -
  have h: "3 \<le> length (sizes example_internal)" "(1::int) \<le> 3" "(3::int) < 2 ^ 63"
    by (simp_all add: sizes_def example_internal_def)
  have p: "(3::int) \<le> 2 ^ precision (dtype (options example_internal))"
    and dt: "dtype (options example_internal) = Double"
    by (simp_all add: example_internal_def example_options_def)
  from SigSpec_reciprocals [OF h, of True False]
  obtain spec where all: "SigSpec_ctor example_internal 3 True False = Inr spec \<and>
      sizes (reciprocals spec) = [3 - 1] \<and>
      ((3::int) = 1 \<longrightarrow> sizes (reciprocals spec) = [0]) \<and>
      ((3::int) \<le> 2 ^ precision (dtype (options example_internal)) \<longrightarrow>
        (\<forall>k < nat (3 - 1). item (reciprocals spec) [int k] =
           round_to (dtype (options example_internal)) (1 / (of_nat k + 2))))" ..
  have c: "SigSpec_ctor example_internal 3 True False = Inr spec"
    using all by (rule conjunct1)
  have s: "sizes (reciprocals spec) = [3 - 1]"
    using all by (rule conjunct2 [THEN conjunct1])
  have "(3::int) \<le> 2 ^ precision (dtype (options example_internal)) \<longrightarrow>
        (\<forall>k < nat (3 - 1). item (reciprocals spec) [int k] =
           round_to (dtype (options example_internal)) (1 / (of_nat k + 2)))"
    using all by (rule conjunct2 [THEN conjunct2, THEN conjunct2])
  then have v: "\<forall>k < nat (3 - 1). item (reciprocals spec) [int k] =
           round_to Double (1 / (of_nat k + 2))"
    using p unfolding dt by (rule mp)
  have e: "spec = example_sigspec"
    using c by (simp add: example_SigSpec_ctor)
  have k0: "(0::nat) < nat (3 - 1)" and k1: "(1::nat) < nat (3 - 1)"
    by simp_all
  have "item (reciprocals spec) [int 0] = round_to Double (1 / (of_nat 0 + 2))"
    using v [rule_format, OF k0] .
  moreover have "item (reciprocals spec) [int 1] = round_to Double (1 / (of_nat 1 + 2))"
    using v [rule_format, OF k1] .
  ultimately have "item (reciprocals example_sigspec) [0] = 1 / 2"
    "item (reciprocals example_sigspec) [1] = 6004799503160661 / 18014398509481984"
    unfolding e by (simp_all add: example_roundings)
  then show ?thesis
    using h(1) p s e example_SigSpec_ctor by simp
qed

theorem SigSpec_reciprocals_counterexample:
  "SigSpec_ctor example_internal 3 True False = Inr example_sigspec \<and>
   item (reciprocals example_sigspec) [1] = 6004799503160661 / 18014398509481984 \<and>
   item (reciprocals example_sigspec) [1] \<noteq> 1 / (1 + 2)"
  by (simp add: example_SigSpec_ctor item_def example_sigspec_def example_reciprocals_def)

section \<open>Slicing by term\<close>

lemma power_sum_mono:
  assumes "0 \<le> (c::int)" and "m \<le> n"
  shows "(\<Sum>i = 1..m. c ^ i) \<le> (\<Sum>i = 1..n. c ^ i)"
  using assms by (intro sum_mono2) auto

lemma power_sum_nonneg: "0 \<le> (c::int) \<Longrightarrow> 0 \<le> (\<Sum>i = 1..m. c ^ i)"
  by (intro sum_nonneg) simp

lemma slice_by_term_loop_views:
  assumes ax: "- ndimension t \<le> axis" "axis < ndimension t"
    and c: "0 \<le> input_channels sp"
    and sz: "(\<Sum>i = 1..nat (depth sp). input_channels sp ^ i) \<le> fst (dims t ! axis_index t axis)"
    and bd: "(\<Sum>i = 1..nat (depth sp). input_channels sp ^ i) < 2 ^ 63"
  shows "n = nat (depth sp - i) \<Longrightarrow> 0 \<le> i \<Longrightarrow> i \<le> depth sp \<Longrightarrow>
    pos = (\<Sum>i = 1..nat i. input_channels sp ^ i) \<Longrightarrow>
    (i < depth sp \<Longrightarrow> len = input_channels sp ^ Suc (nat i)) \<Longrightarrow>
    slice_by_term_loop t axis sp i pos len acc =
      Inr (acc @ map (term_view t (axis_index t axis) (input_channels sp))
                   [nat i ..< nat (depth sp)])"
proof (induction n arbitrary: i pos len acc)
  case 0
  then have "\<not> i < depth sp" by simp
  moreover have "nat i = nat (depth sp)" using 0 by simp
  ultimately show ?case
    by (simp add: slice_by_term_loop.simps)
next
  case (Suc n)
  let ?c = "input_channels sp"
  let ?P = "\<lambda>m. (\<Sum>i = 1..m. ?c ^ i)"
  have lt: "i < depth sp" using Suc.prems(1) by simp
  have len: "len = ?c ^ Suc (nat i)" using Suc.prems(5) lt by simp
  have ni: "nat (i + 1) = Suc (nat i)" using Suc.prems(2) by simp
  have le1: "Suc (nat i) \<le> nat (depth sp)" using lt Suc.prems(2) by simp
  have next_le: "?P (Suc (nat i)) \<le> ?P (nat (depth sp))"
    using c le1 by (rule power_sum_mono)
  have pos_nonneg: "0 \<le> pos" unfolding Suc.prems(4) using c by (rule power_sum_nonneg)
  have len_nonneg: "0 \<le> len" unfolding len using c by simp
  have sum_eq: "pos + len = ?P (Suc (nat i))"
    unfolding Suc.prems(4) len by simp
  have fits: "pos + len \<le> fst (dims t ! axis_index t axis)"
    using sum_eq next_le sz by simp
  have nar: "narrow t axis pos len = Inr (term_view t (axis_index t axis) ?c (nat i))"
    unfolding term_view_def
    using narrow_in_range [OF ax pos_nonneg len_nonneg fits]
    by (simp add: Suc.prems(4) len)
  have w1: "wrap64 (pos + len) = ?P (nat (i + 1))"
  proof -
    have "0 \<le> pos + len" using pos_nonneg len_nonneg by simp
    moreover have "pos + len < 2 ^ 63" using sum_eq next_le bd by simp
    ultimately have "wrap64 (pos + len) = pos + len" by (intro wrap64_id) simp_all
    then show ?thesis using sum_eq ni by simp
  qed
  have w2: "wrap64 (len * ?c) = ?c ^ Suc (nat (i + 1))" if "i + 1 < depth sp"
  proof -
    have le2: "Suc (Suc (nat i)) \<le> nat (depth sp)" using that Suc.prems(2) by simp
    have "?c ^ Suc (Suc (nat i)) \<le> ?P (Suc (Suc (nat i)))"
      using c power_sum_nonneg [OF c, of "Suc (nat i)"] by simp
    also have "\<dots> \<le> ?P (nat (depth sp))" using c le2 by (rule power_sum_mono)
    finally have "?c ^ Suc (Suc (nat i)) < 2 ^ 63" using bd by simp
    moreover have "0 \<le> ?c ^ Suc (Suc (nat i))" using c by simp
    ultimately have "wrap64 (?c ^ Suc (Suc (nat i))) = ?c ^ Suc (Suc (nat i))"
      by (intro wrap64_id) simp_all
    then show ?thesis by (simp add: len ni mult.commute)
  qed
  have step: "slice_by_term_loop t axis sp (i + 1) (wrap64 (pos + len)) (wrap64 (len * ?c))
        (acc @ [term_view t (axis_index t axis) ?c (nat i)]) =
      Inr ((acc @ [term_view t (axis_index t axis) ?c (nat i)]) @
        map (term_view t (axis_index t axis) ?c) [nat (i + 1) ..< nat (depth sp)])"
  proof (rule Suc.IH)
    show "n = nat (depth sp - (i + 1))" using Suc.prems(1) by simp
    show "0 \<le> i + 1" using Suc.prems(2) by simp
    show "i + 1 \<le> depth sp" using lt by simp
    show "wrap64 (pos + len) = ?P (nat (i + 1))" by (rule w1)
    show "wrap64 (len * ?c) = ?c ^ Suc (nat (i + 1))" if "i + 1 < depth sp"
      using that by (rule w2)
  qed
  have upt: "[nat i ..< nat (depth sp)] = nat i # [nat (i + 1) ..< nat (depth sp)]"
  proof -
    have "nat i < nat (depth sp)" using le1 by linarith
    then have "[nat i ..< nat (depth sp)] = nat i # [Suc (nat i) ..< nat (depth sp)]"
      by (rule upt_conv_Cons)
    then show ?thesis using ni by simp
  qed
  show ?case
    by (subst slice_by_term_loop.simps) (simp add: lt nar step upt)
qed

lemma select_term_view:
  assumes "k < length (dims t)"
  shows "select (term_view t k c j) k m = select t k ((\<Sum>i = 1..j. c ^ i) + m)"
  using assms by (simp add: select_def term_view_def algebra_simps)

lemma axis_span_term_view:
  assumes "k < length (dims t)" and "0 \<le> c"
  shows "axis_span (term_view t k c j) k =
    map (\<lambda>m. select t k (int m)) [nat (\<Sum>i = 1..j. c ^ i) ..< nat (\<Sum>i = 1..Suc j. c ^ i)]"
proof -
  let ?P = "\<Sum>i = 1..j. c ^ i"
  have P: "0 \<le> ?P" using assms(2) by (rule power_sum_nonneg)
  have "nat (\<Sum>i = 1..Suc j. c ^ i) = nat ?P + nat (c ^ Suc j)"
    using P assms(2) by (simp add: nat_add_distrib)
  then have "[nat ?P ..< nat (\<Sum>i = 1..Suc j. c ^ i)] =
      map (\<lambda>m. m + nat ?P) [0 ..< nat (c ^ Suc j)]"
    by (simp add: map_add_upt add.commute)
  moreover have "fst (dims (term_view t k c j) ! k) = c ^ Suc j"
    using assms(1) by (simp add: term_view_def)
  ultimately show ?thesis
    using P by (simp add: axis_span_def select_term_view [OF assms(1)] o_def add.commute)
qed

lemma concat_upt_intervals:
  assumes "a 0 = (0::nat)" and "\<And>j. j < D \<Longrightarrow> a j \<le> a (Suc j)"
  shows "concat (map (\<lambda>j. map f [a j ..< a (Suc j)]) [0 ..< D]) = map f [0 ..< a D]"
  using assms(2)
proof (induction D)
  case 0
  then show ?case by (simp add: assms(1))
next
  case (Suc D)
  have "[0 ..< a (Suc D)] = [0 ..< a D] @ [a D ..< a (Suc D)]"
    using Suc.prems [of D] upt_add_eq_append [of 0 "a D" "a (Suc D) - a D"] by simp
  then show ?case
    using Suc by simp
qed

lemma example_slice_by_term:
  "slice_by_term example_signature [] 1 example_sigspec = Inr example_views"
  by (simp add: slice_by_term_def slice_by_term_loop.simps narrow_def tensor_size_def
      maybe_wrap_dim_def ndimension_def wrap64_def example_signature_def example_sigspec_def
      example_views_def Let_def)

text \<open>
  Claim C1. Let the axis of \<open>buf\<close> that \<open>axis\<close> names have length
  \<open>c ^ 1 + ... + c ^ depth\<close>, an \<open>int64_t\<close>, with \<open>c = input_channels \<ge> 0\<close> and
  \<open>depth \<ge> 0\<close>. Then \<open>slice_by_term\<close> returns \<open>depth\<close> views; view \<open>j\<close> (from 0) has
  \<open>c ^ (j + 1)\<close> positions on that axis and is \<open>buf\<close> with only that length changed and
  the offset moved by \<open>c ^ 1 + ... + c ^ j\<close> strides of the axis, so it aliases the storage
  of \<open>buf\<close>; and the positions of the views along the axis, concatenated in order, are
  the positions of \<open>buf\<close> along the axis.
\<close>

theorem slice_by_term_views:
  assumes "- ndimension buf \<le> axis" and "axis < ndimension buf"
    and "0 \<le> input_channels spec" and "0 \<le> depth spec"
    and "fst (dims buf ! axis_index buf axis) =
           (\<Sum>i = 1..nat (depth spec). input_channels spec ^ i)"
    and "fst (dims buf ! axis_index buf axis) < 2 ^ 63"
  shows "\<exists>views. slice_by_term buf out' axis spec = Inr views \<and>
           length views = nat (depth spec) \<and>
           (\<forall>j < nat (depth spec).
              sizes (views ! j) ! axis_index buf axis = input_channels spec ^ Suc j \<and>
              views ! j =
                buf\<lparr>storage_offset := storage_offset buf +
                       (\<Sum>i = 1..j. input_channels spec ^ i) *
                         snd (dims buf ! axis_index buf axis),
                     dims := (dims buf)[axis_index buf axis :=
                       (input_channels spec ^ Suc j,
                        snd (dims buf ! axis_index buf axis))]\<rparr>) \<and>
           concat (map (\<lambda>v. axis_span v (axis_index buf axis)) views) =
             axis_span buf (axis_index buf axis)"
proof -
  let ?k = "axis_index buf axis"
  let ?c = "input_channels spec"
  let ?views = "map (term_view buf ?k ?c) [0 ..< nat (depth spec)]"
  have k: "?k < length (dims buf)"
    using assms(1,2) by (rule maybe_wrap_dim_axis(2))
  have sz: "(\<Sum>i = 1..nat (depth spec). ?c ^ i) \<le> fst (dims buf ! ?k)"
    and bd: "(\<Sum>i = 1..nat (depth spec). ?c ^ i) < 2 ^ 63"
    using assms(5,6) by simp_all
  have "slice_by_term_loop buf axis spec 0 0 ?c [] =
      Inr ([] @ map (term_view buf ?k ?c) [nat 0 ..< nat (depth spec)])"
    by (rule slice_by_term_loop_views [OF assms(1,2,3) sz bd, where n = "nat (depth spec)"])
      (simp_all add: assms(4))
  then have run: "slice_by_term buf out' axis spec = Inr ?views"
    using assms(4) by (simp add: slice_by_term_def)
  have each: "sizes (?views ! j) ! ?k = ?c ^ Suc j \<and>
      ?views ! j =
        buf\<lparr>storage_offset := storage_offset buf + (\<Sum>i = 1..j. ?c ^ i) * snd (dims buf ! ?k),
             dims := (dims buf)[?k := (?c ^ Suc j, snd (dims buf ! ?k))]\<rparr>"
    if "j < nat (depth spec)" for j
    using that k by (simp add: term_view_def sizes_def)
  have "concat (map (\<lambda>v. axis_span v ?k) ?views) =
      concat (map (\<lambda>j. map (\<lambda>m. select buf ?k (int m))
        [nat (\<Sum>i = 1..j. ?c ^ i) ..< nat (\<Sum>i = 1..Suc j. ?c ^ i)]) [0 ..< nat (depth spec)])"
    by (simp add: o_def axis_span_term_view [OF k assms(3)])
  also have "\<dots> = map (\<lambda>m. select buf ?k (int m)) [0 ..< nat (\<Sum>i = 1..nat (depth spec). ?c ^ i)]"
  proof (rule concat_upt_intervals)
    show "nat (\<Sum>i = 1..0. ?c ^ i) = 0" by simp
    show "nat (\<Sum>i = 1..j. ?c ^ i) \<le> nat (\<Sum>i = 1..Suc j. ?c ^ i)" for j
      by (intro nat_mono power_sum_mono [OF assms(3)]) simp
  qed
  also have "\<dots> = axis_span buf ?k"
    by (simp add: axis_span_def assms(5))
  finally have span: "concat (map (\<lambda>v. axis_span v ?k) ?views) = axis_span buf ?k" .
  show ?thesis
  proof (intro exI [of _ ?views] conjI allI impI)
    show "slice_by_term buf out' axis spec = Inr ?views" by (rule run)
    show "length ?views = nat (depth spec)" by simp
    show "concat (map (\<lambda>v. axis_span v ?k) ?views) = axis_span buf ?k" by (rule span)
  next
    fix j assume j: "j < nat (depth spec)"
    show "sizes (?views ! j) ! ?k = ?c ^ Suc j"
      using each [OF j] by (rule conjunct1)
    show "?views ! j =
        buf\<lparr>storage_offset := storage_offset buf + (\<Sum>i = 1..j. ?c ^ i) * snd (dims buf ! ?k),
             dims := (dims buf)[?k := (?c ^ Suc j, snd (dims buf ! ?k))]\<rparr>"
      using each [OF j] by (rule conjunct2)
  qed
qed

theorem slice_by_term_views_witness:
  "slice_by_term example_signature [] 1 example_sigspec = Inr example_views \<and>
   map (\<lambda>v. sizes v ! 1) example_views = [3, 9, 27] \<and>
   map storage_offset example_views = [0, 6, 24] \<and>
   concat (map (\<lambda>v. axis_span v 1) example_views) = axis_span example_signature 1"
proof -
  have k: "axis_index example_signature 1 = 1"
    by (simp add: axis_index_def)
  have h: "- ndimension example_signature \<le> 1" "1 < ndimension example_signature"
    "0 \<le> input_channels example_sigspec" "0 \<le> depth example_sigspec"
    "fst (dims example_signature ! axis_index example_signature 1) =
       (\<Sum>i = 1..nat (depth example_sigspec). input_channels example_sigspec ^ i)"
    "fst (dims example_signature ! axis_index example_signature 1) < 2 ^ 63"
    by (simp_all add: axis_index_def ndimension_def example_signature_def
        example_sigspec_def numeral_3_eq_3)
  obtain views where "slice_by_term example_signature [] 1 example_sigspec = Inr views"
    and "concat (map (\<lambda>v. axis_span v (axis_index example_signature 1)) views) =
           axis_span example_signature (axis_index example_signature 1)"
    using slice_by_term_views [OF h, of "[]"] by blast
  then have "concat (map (\<lambda>v. axis_span v 1) example_views) = axis_span example_signature 1"
    by (simp add: example_slice_by_term k)
  moreover have "map (\<lambda>v. sizes v ! 1) example_views = [3, 9, 27]"
    "map storage_offset example_views = [0, 6, 24]"
    by (simp_all add: example_views_def sizes_def)
  ultimately show ?thesis
    using example_slice_by_term by simp
qed

section \<open>Slicing at a stream index commutes with slicing by term\<close>

lemma narrow_squeeze_at_stream:
  assumes "dims t \<noteq> []" and "0 \<le> stream_index" and "stream_index < fst (dims t ! 0)"
  shows "ebind (narrow t 0 stream_index 1) (\<lambda>n. squeeze n 0) = Inr (at_stream t stream_index)"
proof -
  have r: "- ndimension t \<le> 0" "0 < ndimension t"
    using assms(1) by (simp_all add: ndimension_def)
  have k: "axis_index t 0 = 0"
    by (simp add: axis_index_def)
  have le: "stream_index + 1 \<le> fst (dims t ! axis_index t 0)"
    using assms(3) by (simp add: k)
  have n: "narrow t 0 stream_index 1 =
      Inr (t\<lparr>storage_offset := storage_offset t + stream_index * snd (dims t ! 0),
             dims := (dims t)[0 := (1, snd (dims t ! 0))]\<rparr>)"
    using narrow_in_range [OF r assms(2) _ le] by (simp add: k)
  show ?thesis
    using assms(1)
    by (cases "dims t")
      (simp_all add: n squeeze_def maybe_wrap_dim_def ndimension_def Let_def at_stream_def)
qed

lemma narrow_at_stream_commute:
  assumes "- ndimension t \<le> axis" and "axis < ndimension t"
    and "1 \<le> axis_index t axis"
  shows "narrow (at_stream t stream_index) (int (axis_index t axis) - 1) start len =
         ebind (narrow t axis start len) (\<lambda>v. Inr (at_stream v stream_index))"
proof -
  let ?k = "axis_index t axis"
  let ?b = "at_stream t stream_index"
  have k: "?k < length (dims t)"
    using assms(1,2) by (rule maybe_wrap_dim_axis(2))
  have nb: "ndimension ?b = ndimension t - 1"
    using k by (simp add: at_stream_def ndimension_def)
  have l2: "2 \<le> length (dims t)"
    using k assms(3) by linarith
  have pos: "\<not> ndimension t \<le> 0" "\<not> ndimension ?b \<le> 0"
    using l2 nb by (auto simp add: ndimension_def)
  have wb: "maybe_wrap_dim (int ?k - 1) (ndimension ?b) w = Inr (int ?k - 1)" for w
  proof -
    have "length (dims ?b) = length (dims t) - 1"
      by (simp add: at_stream_def)
    then show ?thesis
      using k assms(3) l2 by (auto simp add: maybe_wrap_dim_def Let_def ndimension_def)
  qed
  have nth_tl: "tl (dims t) ! (?k - 1) = dims t ! ?k"
    using k assms(3) by (cases "dims t") (simp_all add: nth_Cons')
  have db: "dims ?b ! nat (int ?k - 1) = dims t ! ?k"
    using assms(3) nth_tl by (simp add: at_stream_def nat_diff_distrib)
  have sb: "tensor_size ?b (int ?k - 1) = Inr (fst (dims t ! ?k))"
    by (simp add: tensor_size_def wb db)
  have st: "tensor_size t axis = Inr (fst (dims t ! ?k))"
    by (simp add: tensor_size_def maybe_wrap_dim_axis [OF assms(1,2)])
  have upd: "(tl (dims t))[nat (int ?k - 1) := y] = tl ((dims t)[?k := y])" for y
    using assms(3) by (cases "dims t"; cases ?k) (simp_all add: nat_diff_distrib)
  have z: "(dims t)[?k := y] ! 0 = dims t ! 0" for y
    using assms(3) by simp
  let ?W = "if start \<noteq> fst (dims t ! ?k)
            then maybe_wrap_dim start (fst (dims t ! ?k)) True else Inr start"
  have lhs: "narrow ?b (int ?k - 1) start len =
      ebind ?W (\<lambda>s. if \<not> (0 \<le> len \<and> s \<le> fst (dims t ! ?k) - len) then Inl RuntimeError
        else Inr (?b\<lparr>storage_offset := storage_offset ?b + s * snd (dims t ! ?k),
                     dims := (dims ?b)[nat (int ?k - 1) := (len, snd (dims t ! ?k))]\<rparr>))"
    by (simp add: narrow_def pos sb wb db cong: if_cong)
  have rhs: "narrow t axis start len =
      ebind ?W (\<lambda>s. if \<not> (0 \<le> len \<and> s \<le> fst (dims t ! ?k) - len) then Inl RuntimeError
        else Inr (t\<lparr>storage_offset := storage_offset t + s * snd (dims t ! ?k),
                     dims := (dims t)[?k := (len, snd (dims t ! ?k))]\<rparr>))"
    by (simp add: narrow_def pos st maybe_wrap_dim_axis [OF assms(1,2)] cong: if_cong)
  have rec: "?b\<lparr>storage_offset := storage_offset ?b + s * snd (dims t ! ?k),
                dims := (dims ?b)[nat (int ?k - 1) := (len, snd (dims t ! ?k))]\<rparr> =
      at_stream (t\<lparr>storage_offset := storage_offset t + s * snd (dims t ! ?k),
                    dims := (dims t)[?k := (len, snd (dims t ! ?k))]\<rparr>) stream_index" for s
    by (simp add: at_stream_def upd z)
  show ?thesis
    unfolding lhs rhs by (cases ?W) (simp_all add: rec cong: if_cong)
qed

lemma slice_by_term_loop_acc_aux:
  "n = nat (depth sp - i) \<Longrightarrow>
   slice_by_term_loop t axis sp i pos len acc =
   ebind (slice_by_term_loop t axis sp i pos len []) (\<lambda>vs. Inr (acc @ vs))"
proof (induction n arbitrary: i pos len acc)
  case 0
  then have "\<not> i < depth sp" by simp
  then show ?case by (simp add: slice_by_term_loop.simps)
next
  case (Suc n)
  then have lt: "i < depth sp" and n: "n = nat (depth sp - (i + 1))" by simp_all
  show ?case
  proof (cases "narrow t axis pos len")
    case (Inl e)
    then show ?thesis
      using lt by (simp add: slice_by_term_loop.simps [of t axis sp i])
  next
    case (Inr v)
    show ?thesis
      using lt Inr Suc.IH [OF n, of _ _ "acc @ [v]"] Suc.IH [OF n, of _ _ "[v]"]
      by (simp add: slice_by_term_loop.simps [of t axis sp i] ebind_assoc)
  qed
qed

lemma slice_by_term_loop_acc:
  "slice_by_term_loop t axis sp i pos len acc =
   ebind (slice_by_term_loop t axis sp i pos len []) (\<lambda>vs. Inr (acc @ vs))"
  by (rule slice_by_term_loop_acc_aux [OF refl])

lemma slice_at_stream_loop_acc:
  "slice_at_stream_loop xs stream_index acc =
   ebind (slice_at_stream_loop xs stream_index []) (\<lambda>vs. Inr (acc @ vs))"
proof (induction xs arbitrary: acc)
  case Nil
  then show ?case by simp
next
  case (Cons x xs)
  show ?case
    by (simp add: Cons [of "acc @ [_]"] Cons [of "[_]"] ebind_assoc)
qed

lemma slice_at_stream_loop_Cons:
  assumes "ebind (narrow v 0 stream_index 1) (\<lambda>n. squeeze n 0) = Inr w"
  shows "slice_at_stream_loop (v # vs) stream_index [] =
         ebind (slice_at_stream_loop vs stream_index []) (\<lambda>ws. Inr (w # ws))"
proof -
  have "slice_at_stream_loop (v # vs) stream_index [] =
      ebind (ebind (narrow v 0 stream_index 1) (\<lambda>n. squeeze n 0))
        (\<lambda>x. slice_at_stream_loop vs stream_index [x])"
    by (simp add: ebind_assoc)
  also have "\<dots> = slice_at_stream_loop vs stream_index [w]"
    by (simp add: assms)
  also have "\<dots> = ebind (slice_at_stream_loop vs stream_index []) (\<lambda>ws. Inr ([w] @ ws))"
    by (rule slice_at_stream_loop_acc)
  finally show ?thesis by simp
qed

lemma slice_loops_commute:
  assumes ax: "- ndimension t \<le> axis" "axis < ndimension t"
    and k1: "1 \<le> axis_index t axis"
    and idx: "0 \<le> stream_index" "stream_index < fst (dims t ! 0)"
  shows "n = nat (depth sp - i) \<Longrightarrow>
    ebind (slice_by_term_loop t axis sp i pos len [])
      (\<lambda>vs. slice_at_stream_loop vs stream_index []) =
    slice_by_term_loop (at_stream t stream_index) (int (axis_index t axis) - 1) sp i pos len []"
proof (induction n arbitrary: i pos len)
  case 0
  then have "\<not> i < depth sp" by simp
  then show ?case by (simp add: slice_by_term_loop.simps)
next
  case (Suc n)
  let ?b = "at_stream t stream_index"
  let ?k = "int (axis_index t axis) - 1"
  let ?p = "wrap64 (pos + len)"
  let ?l = "wrap64 (len * input_channels sp)"
  from Suc.prems have lt: "i < depth sp" and n: "n = nat (depth sp - (i + 1))" by simp_all
  have nb: "narrow ?b ?k pos len =
      ebind (narrow t axis pos len) (\<lambda>v. Inr (at_stream v stream_index))"
    using ax k1 by (rule narrow_at_stream_commute)
  show ?case
  proof (cases "narrow t axis pos len")
    case (Inl e)
    then show ?thesis
      using lt nb
      by (simp add: slice_by_term_loop.simps [of t axis sp i]
          slice_by_term_loop.simps [of ?b ?k sp i])
  next
    case (Inr v)
    obtain s where v: "v = t\<lparr>storage_offset := storage_offset t + s * snd (dims t ! axis_index t axis),
                    dims := (dims t)[axis_index t axis :=
                              (len, snd (dims t ! axis_index t axis))]\<rparr>"
      using narrow_shape [OF ax Inr] by blast
    have k: "axis_index t axis < length (dims t)"
      using ax by (rule maybe_wrap_dim_axis(2))
    have "dims v \<noteq> []" and "stream_index < fst (dims v ! 0)"
      using k k1 idx(2) by (auto simp add: v)
    then have sq: "ebind (narrow v 0 stream_index 1) (\<lambda>n. squeeze n 0) =
        Inr (at_stream v stream_index)"
      using idx(1) by (intro narrow_squeeze_at_stream)
    have "ebind (slice_by_term_loop t axis sp i pos len [])
        (\<lambda>vs. slice_at_stream_loop vs stream_index []) =
      ebind (slice_by_term_loop t axis sp (i + 1) ?p ?l [v])
        (\<lambda>vs. slice_at_stream_loop vs stream_index [])"
      using lt Inr by (simp add: slice_by_term_loop.simps [of t axis sp i])
    also have "\<dots> = ebind (slice_by_term_loop t axis sp (i + 1) ?p ?l [])
        (\<lambda>vs. slice_at_stream_loop (v # vs) stream_index [])"
      by (subst slice_by_term_loop_acc) (simp add: ebind_assoc)
    also have "\<dots> = ebind (slice_by_term_loop t axis sp (i + 1) ?p ?l [])
        (\<lambda>vs. ebind (slice_at_stream_loop vs stream_index [])
           (\<lambda>ws. Inr (at_stream v stream_index # ws)))"
      by (simp only: slice_at_stream_loop_Cons [OF sq])
    also have "\<dots> = ebind (ebind (slice_by_term_loop t axis sp (i + 1) ?p ?l [])
        (\<lambda>vs. slice_at_stream_loop vs stream_index []))
           (\<lambda>ws. Inr ([at_stream v stream_index] @ ws))"
      by (simp add: ebind_assoc)
    also have "\<dots> = ebind (slice_by_term_loop ?b ?k sp (i + 1) ?p ?l [])
           (\<lambda>ws. Inr ([at_stream v stream_index] @ ws))"
      by (simp only: Suc.IH [OF n])
    also have "\<dots> = slice_by_term_loop ?b ?k sp (i + 1) ?p ?l [at_stream v stream_index]"
      by (rule slice_by_term_loop_acc [symmetric])
    also have "\<dots> = slice_by_term_loop ?b ?k sp i pos len []"
      using lt Inr nb by (simp add: slice_by_term_loop.simps [of ?b ?k sp i])
    finally show ?thesis .
  qed
qed

lemma example_slice_at_stream:
  "slice_at_stream example_views [] 2 = Inr example_views_at_2"
  by (simp add: slice_at_stream_def narrow_def squeeze_def tensor_size_def
      maybe_wrap_dim_def ndimension_def example_signature_def example_views_def
      example_views_at_2_def Let_def)

text \<open>
  Claim C7. Let axis 0 of \<open>buf\<close> be the stream axis, \<open>stream_index\<close> a position of it,
  and \<open>axis\<close> name another axis, at position \<open>k \<ge> 1\<close>. Slicing \<open>buf\<close> by term along
  \<open>axis\<close> and then every view at \<open>stream_index\<close> gives the same result, views or
  exception, as narrowing \<open>buf\<close> to \<open>stream_index\<close>, removing the stream axis, and
  slicing by term along what is then axis \<open>k - 1\<close>.
\<close>

theorem slice_at_stream_commutes:
  assumes "- ndimension buf \<le> axis" and "axis < ndimension buf"
    and "1 \<le> axis_index buf axis"
    and "0 \<le> stream_index" and "stream_index < fst (dims buf ! 0)"
  shows "ebind (slice_by_term buf out1 axis spec)
           (\<lambda>views. slice_at_stream views out2 stream_index) =
         ebind (narrow buf 0 stream_index 1) (\<lambda>n.
         ebind (squeeze n 0) (\<lambda>b.
           slice_by_term b out3 (int (axis_index buf axis) - 1) spec))"
proof -
  have ne: "dims buf \<noteq> []"
    using assms(1,2) by (auto simp add: ndimension_def)
  have sq: "ebind (narrow buf 0 stream_index 1) (\<lambda>n. squeeze n 0) =
      Inr (at_stream buf stream_index)"
    using ne assms(4,5) by (rule narrow_squeeze_at_stream)
  have "ebind (narrow buf 0 stream_index 1) (\<lambda>n.
         ebind (squeeze n 0) (\<lambda>b.
           slice_by_term b out3 (int (axis_index buf axis) - 1) spec)) =
       ebind (ebind (narrow buf 0 stream_index 1) (\<lambda>n. squeeze n 0)) (\<lambda>b.
           slice_by_term b out3 (int (axis_index buf axis) - 1) spec)"
    by (simp add: ebind_assoc)
  also have "\<dots> = slice_by_term (at_stream buf stream_index) out3
      (int (axis_index buf axis) - 1) spec"
    by (simp add: sq)
  finally have rhs: "ebind (narrow buf 0 stream_index 1) (\<lambda>n.
         ebind (squeeze n 0) (\<lambda>b.
           slice_by_term b out3 (int (axis_index buf axis) - 1) spec)) =
       slice_by_term (at_stream buf stream_index) out3 (int (axis_index buf axis) - 1) spec" .
  show ?thesis
    unfolding rhs
    using slice_loops_commute [OF assms, of "nat (depth spec - 0)" spec 0 0
        "input_channels spec"]
    by (simp add: slice_by_term_def slice_at_stream_def)
qed

theorem slice_at_stream_commutes_witness:
  "ebind (slice_by_term example_signature [] 1 example_sigspec)
     (\<lambda>views. slice_at_stream views [] 2) = Inr example_views_at_2 \<and>
   ebind (narrow example_signature 0 2 1) (\<lambda>n.
     ebind (squeeze n 0) (\<lambda>b. slice_by_term b [] 0 example_sigspec)) =
     Inr example_views_at_2"
proof -
  have k: "axis_index example_signature 1 = 1"
    by (simp add: axis_index_def)
  have h: "- ndimension example_signature \<le> 1" "1 < ndimension example_signature"
    "1 \<le> axis_index example_signature 1" "(0::int) \<le> 2"
    "2 < fst (dims example_signature ! 0)"
    by (simp_all add: axis_index_def ndimension_def example_signature_def)
  have l: "ebind (slice_by_term example_signature [] 1 example_sigspec)
     (\<lambda>views. slice_at_stream views [] 2) = Inr example_views_at_2"
    by (simp add: example_slice_by_term example_slice_at_stream)
  show ?thesis
    using slice_at_stream_commutes [OF h, of "[]" example_sigspec "[]" "[]"] l
    by (simp add: k)
qed

end
